theory Spec2Isabelle
  imports Main
begin

section \<open>Data model (ast.ts)\<close>

text \<open>
  The AST of the compiler is indexed by a phase (Parsed, Built, Resolved, Typecked); a
  later phase adds slots to the same node shapes.  The embedding has one type per node
  shape and makes each phase-dependent slot optional: \<open>None\<close> is the slot being absent.
  Source positions are kept as a start and an end offset (the file of a span is left out).
\<close>

datatype span = Span (sp_start: nat) (sp_end: nat)

text \<open>The token returned by the error sink when a diagnostic has been submitted.\<close>

datatype error_emitted = ErrorEmitted

datatype item_id = ItemId (pkgId: nat) (itemIdx: nat)

definition pkgRoot :: "nat \<Rightarrow> item_id" where
  "pkgRoot pkg = ItemId pkg 0"

definition dummy :: item_id where
  "dummy = ItemId 999999 999999"

type_synonym loop_id = nat

datatype resolution =
    ResLocal nat
  | ResItem item_id
  | ResBuiltin string
  | ResTyParam nat string
  | ResError error_emitted

text \<open>\<open>Ident\<close> and \<open>IdentWithRes\<close>: a name, its span and, from phase Resolved on, a resolution.\<close>

datatype ident = Ident (id_name: string) (id_span: span) (id_res: "resolution option")

text \<open>The AST form of a type (\<open>Type<P>\<close>).\<close>

datatype astty =
    TIdent "astty list" ident span
  | TTuple "astty list" span
  | TRawptr astty span
  | TNever span
  | TError error_emitted span

text \<open>
  The semantic type \<open>Ty\<close>.  Modelled from the spec: \<open>Ty\<close> and the constants \<open>TY_UNIT\<close>,
  \<open>TY_BOOL\<close>, \<open>TY_INT\<close>, \<open>TY_I32\<close>, \<open>TY_STRING\<close>, \<open>TY_NEVER\<close> are declared in
  \<open>types.ts\<close>, which is not among the sources; the spec lists the primitives bool, string,
  unit, int, i32 and never, and fn, struct, tuple, rawptr, var, param and error.
\<close>

datatype ty =
    TyString
  | TyInt
  | TyI32
  | TyBool
  | TyUnit
  | TyNever
  | TyFn "ty list" ty
  | TyStruct string "(string \<times> ty) list"
  | TyTuple "ty list"
  | TyRawPtr ty
  | TyVar nat
  | TyParam nat string
  | TyError error_emitted

definition mkTyFn :: "ty list \<Rightarrow> ty \<Rightarrow> ty" where
  "mkTyFn params returnTy = TyFn params returnTy"

datatype lit_int_type = LitInt | LitI32

datatype literal =
    LStr string span
  | LInt nat lit_int_type

datatype binary_kind =
    Add | Sub | Mul | Div | Rem | BitAnd | BitOr | Lt | Gt | Eq | LtEq | GtEq | NotEq

definition COMPARISON_KINDS :: "binary_kind list" where
  "COMPARISON_KINDS = [Gt, Lt, Eq, LtEq, GtEq, NotEq]"

definition EQUALITY_KINDS :: "binary_kind list" where
  "EQUALITY_KINDS = [Eq, NotEq]"

definition LOGICAL_KINDS :: "binary_kind list" where
  "LOGICAL_KINDS = [BitAnd, BitOr]"

definition ARITH_TERM_KINDS :: "binary_kind list" where
  "ARITH_TERM_KINDS = [Add, Sub]"

definition ARITH_FACTOR_KINDS :: "binary_kind list" where
  "ARITH_FACTOR_KINDS = [Mul, Div, Rem]"

fun binaryExprPrecedenceClass :: "binary_kind \<Rightarrow> nat" where
  "binaryExprPrecedenceClass Add = 0"
| "binaryExprPrecedenceClass Sub = 0"
| "binaryExprPrecedenceClass Mul = 0"
| "binaryExprPrecedenceClass Div = 0"
| "binaryExprPrecedenceClass Rem = 0"
| "binaryExprPrecedenceClass BitAnd = 1"
| "binaryExprPrecedenceClass BitOr = 2"
| "binaryExprPrecedenceClass Lt = 3"
| "binaryExprPrecedenceClass Gt = 4"
| "binaryExprPrecedenceClass Eq = 5"
| "binaryExprPrecedenceClass LtEq = 6"
| "binaryExprPrecedenceClass GtEq = 7"
| "binaryExprPrecedenceClass NotEq = 8"

datatype unary_kind = Not | Neg

text \<open>The field of a field access: a name or a number, its span, and the optional \<open>fieldIdx\<close>.\<close>

datatype field_value = FieldName string | FieldNum nat

datatype field = Field (f_value: field_value) (f_span: span) (fieldIdx: "nat option")

datatype local_info = LocalInfo (l_name: string) (l_span: span) (l_ty: "ty option")

text \<open>
  An expression is a kind payload with a span and, from phase Typecked on, a type.  The
  payload of inline assembly (value types and instructions of the code generator) is
  left out: no function of the middle end reads it.
\<close>

datatype expr = Expr (kind: expr_kind) (span: span) (ty: "ty option")
and expr_kind =
    KEmpty
  | KLet ident "astty option" expr "local_info option"
  | KAssign expr expr
  | KBlock "expr list" "local_info list option"
  | KLiteral literal
  | KIdent ident
  | KPath "string list" resolution span
  | KBinary binary_kind expr expr
  | KUnary unary_kind expr
  | KCall expr "expr list"
  | KFieldAccess expr field
  | KIf expr expr "expr option"
  | KLoop expr loop_id
  | KBreak "loop_id option"
  | KStructLiteral ident "struct_literal_field list"
  | KTupleLiteral "expr list"
  | KAsm
  | KError error_emitted
and struct_literal_field =
    StructLiteralField (slf_name: ident) (slf_expr: expr) (slf_fieldIdx: "nat option")


text \<open>Items.  \<open>i_defPath\<close> is the definition path, present from phase Resolved on.\<close>

datatype function_arg = FunctionArg (fa_ident: ident) (fa_type: astty)

datatype field_def = FieldDef (fd_name: ident) (fd_type: astty)

datatype type_def_kind = TDStruct "field_def list" | TDAlias astty

datatype string_literal = StringLiteral string span

datatype item =
  Item (i_kind: item_kind) (i_span: span) (i_id: item_id) (i_name: string)
    (i_defPath: "string list option")
and item_kind =
    IFunction "function_arg list" expr "astty option" "ty option"
  | IType "ident list" type_def_kind "ty option"
  | IImport string_literal string_literal "function_arg list" "astty option" "ty option"
  | IMod "item list"
  | IExtern
  | IGlobal astty expr "ty option"
  | IUse "ident list" "resolution option"
  | IError error_emitted

text \<open>A package (\<open>Pkg<P>\<close>), without its root file and its typeck results.\<close>

record pkg =
  pkg_id :: nat
  rootItems :: "item list"
  itemsById :: "item_id \<rightharpoonup> item"
  packageName :: string
  fatalError :: "error_emitted option"

text \<open>The built-in names (\<open>BUILTINS\<close>).\<close>

definition BUILTINS :: "string list" where
  "BUILTINS =
    [''print'', ''String'', ''Int'', ''I32'', ''Bool'', ''true'', ''false'', ''trap'',
     ''__NULL'', ''__i32_store'', ''__i64_store'', ''__i32_load'', ''__i64_load'',
     ''__i32_extend_to_i64_u'', ''___transmute'', ''___asm'', ''__locals'']"

section \<open>Diagnostics and aborts\<close>

text \<open>
  A diagnostic is a \<open>CompilerError\<close>: a message and a span.  The message templates of the
  sources are constructors, with the interpolated values as arguments (the printer of
  types is not among the sources, so a printed type is kept as the type).
\<close>

datatype message =
    CannotFind string
  | AlreadyDeclared string
  | ModuleIndexedWithNumber
  | ModuleHasNoItem string string
  | LetOnlyInBlocks
  | MixingOperators string binary_kind binary_kind
  | TypeParamAsValue
  | CannotBeUsedAsValue string
  | CannotAssignToItem
  | CannotAssignToBuiltins
  | InvalidLhsOfAssignment
  | TupleIndexOutOfRange nat nat
  | TupleFieldsNeedNumbers
  | FieldsOnlyOnStructPointers
  | FieldDoesNotExist string ty
  | StructFieldsNeedNames
  | CannotAccessField field_value ty
  | BreakOutsideLoop
  | StructLiteralOnlyForStructs
  | FieldDoesntExistOnType string string
  | MissingFieldsInLiteral "string list"
  | InvalidBinaryTypes ty binary_kind ty
  | InvalidUnaryTypes unary_kind ty
  | NotCallable ty
  | MissingArgument ty
  | TooManyArguments nat nat
  | CannotInferType
  | ExpectedFound ty ty

datatype diag = CompilerError (d_message: message) (d_span: span)

text \<open>
  What ends a phase early: a thrown \<open>CompilerError\<close>, a thrown \<open>Error\<close> (scope corruption,
  a duplicate item id, an item or a type inside a body), or the \<open>TypeError\<close> JavaScript
  raises when a property of \<open>undefined\<close> is read or called.
\<close>

datatype abort =
    Thrown diag
  | ScopesCorrupted string "string option"
  | DuplicateItemId item_id string
  | ItemsInsideBody
  | TypesInsideBody
  | TypeError

section \<open>State passing\<close>

text \<open>
  A folder of the sources is an object whose methods mutate the variables they close
  over and may throw.  A method is modelled as a function from the state to either an
  abort or a result with the new state.
\<close>

type_synonym ('a, 's) run = "'s \<Rightarrow> abort + ('a \<times> 's)"

definition ret :: "'a \<Rightarrow> ('a, 's) run" where
  "ret a = (\<lambda>s. Inr (a, s))"

definition bind :: "('a, 's) run \<Rightarrow> ('a \<Rightarrow> ('b, 's) run) \<Rightarrow> ('b, 's) run" where
  "bind m f = (\<lambda>s. case m s of Inl e \<Rightarrow> Inl e | Inr (a, s') \<Rightarrow> f a s')"

definition throw :: "abort \<Rightarrow> ('a, 's) run" where
  "throw e = (\<lambda>s. Inl e)"

text \<open>\<open>xs.map(f)\<close> and \<open>xs.forEach(f)\<close> with an effectful \<open>f\<close>: left to right.\<close>

primrec mapM :: "('a \<Rightarrow> ('b, 's) run) \<Rightarrow> 'a list \<Rightarrow> ('b list, 's) run" where
  "mapM f [] = ret []"
| "mapM f (x # xs) = bind (f x) (\<lambda>y. bind (mapM f xs) (\<lambda>ys. ret (y # ys)))"

text \<open>\<open>x && f(x)\<close> on an optional slot.\<close>

definition mapOpt :: "('a \<Rightarrow> ('b, 's) run) \<Rightarrow> 'a option \<Rightarrow> ('b option, 's) run" where
  "mapOpt f x = (case x of None \<Rightarrow> ret None | Some a \<Rightarrow> bind (f a) (\<lambda>b. ret (Some b)))"

lemma mapM_cong [fundef_cong]:
  "xs = ys \<Longrightarrow> (\<And>x. x \<in> set ys \<Longrightarrow> f x = g x) \<Longrightarrow> mapM f xs = mapM g ys"
  by (induction ys arbitrary: xs) auto

lemma mapOpt_cong [fundef_cong]:
  "x = y \<Longrightarrow> (\<And>a. y = Some a \<Longrightarrow> f a = g a) \<Longrightarrow> mapOpt f x = mapOpt g y"
  by (auto simp: mapOpt_def split: option.splits)

section \<open>The generic folds (ast.ts)\<close>

text \<open>
  A folder is given by its \<open>expr\<close>, \<open>ident\<close> and \<open>type\<close> methods (and \<open>item\<close> for items); the
  super-folds rebuild one node and hand each child to the folder, so the recursion is
  the folder's.  An object spread \<open>{...expr, k: v}\<close> keeps every slot of the node but the
  ones named; a node built afresh (\<open>empty\<close>, \<open>literal\<close>, \<open>ident\<close>) has no type slot.
  Properties are evaluated in the order they are written.
\<close>

fun superFoldType ::
  "(astty \<Rightarrow> (astty, 's) run) \<Rightarrow> (ident \<Rightarrow> (ident, 's) run) \<Rightarrow> astty \<Rightarrow> (astty, 's) run" where
  "superFoldType ft fi (TIdent genericArgs v sp) =
     bind (mapM ft genericArgs) (\<lambda>genericArgs'.
     bind (fi v) (\<lambda>v'.
     ret (TIdent genericArgs' v' sp)))"
| "superFoldType ft fi (TTuple elems sp) =
     bind (mapM ft elems) (\<lambda>elems'. ret (TTuple elems' sp))"
| "superFoldType ft fi (TRawptr inner sp) =
     bind (ft inner) (\<lambda>inner'. ret (TRawptr inner' sp))"
| "superFoldType ft fi (TNever sp) = ret (TNever sp)"
| "superFoldType ft fi (TError err sp) = ret (TError err sp)"

fun subtypes :: "astty \<Rightarrow> astty list" where
  "subtypes (TIdent genericArgs v sp) = genericArgs"
| "subtypes (TTuple elems sp) = elems"
| "subtypes (TRawptr inner sp) = [inner]"
| "subtypes (TNever sp) = []"
| "subtypes (TError err sp) = []"

lemma superFoldType_cong [fundef_cong]:
  "a = a' \<Longrightarrow> (\<And>x. x \<in> set (subtypes a') \<Longrightarrow> ft x = ft' x) \<Longrightarrow> fi = fi'
    \<Longrightarrow> superFoldType ft fi a = superFoldType ft' fi' a'"
  by (cases a') (auto cong: mapM_cong)

lemma size_list_member: "x \<in> set xs \<Longrightarrow> size x < Suc (size_list size xs)"
  by (induction xs) auto

lemma size_subtypes: "x \<in> set (subtypes a) \<Longrightarrow> size x < size a"
  by (cases a) (auto dest: size_list_member)

fun superFoldExpr ::
  "(expr \<Rightarrow> (expr, 's) run) \<Rightarrow> (ident \<Rightarrow> (ident, 's) run) \<Rightarrow> (astty \<Rightarrow> (astty, 's) run)
    \<Rightarrow> expr \<Rightarrow> (expr, 's) run" where
  "superFoldExpr fe fi ft (Expr KEmpty sp t) = ret (Expr KEmpty sp None)"
| "superFoldExpr fe fi ft (Expr (KLet name aty rhs loc) sp t) =
     bind (mapOpt ft aty) (\<lambda>aty'.
     bind (fe rhs) (\<lambda>rhs'.
     ret (Expr (KLet name aty' rhs' loc) sp t)))"
| "superFoldExpr fe fi ft (Expr (KAssign lhs rhs) sp t) =
     bind (fe lhs) (\<lambda>lhs'.
     bind (fe rhs) (\<lambda>rhs'.
     ret (Expr (KAssign lhs' rhs') sp t)))"
| "superFoldExpr fe fi ft (Expr (KBlock exprs locals) sp t) =
     bind (mapM fe exprs) (\<lambda>exprs'.
     ret (Expr (KBlock exprs' locals) sp t))"
| "superFoldExpr fe fi ft (Expr (KLiteral v) sp t) = ret (Expr (KLiteral v) sp None)"
| "superFoldExpr fe fi ft (Expr (KIdent v) sp t) =
     bind (fi v) (\<lambda>v'. ret (Expr (KIdent v') sp None))"
| "superFoldExpr fe fi ft (Expr (KPath segs res vsp) sp t) =
     ret (Expr (KPath segs res vsp) sp t)"
| "superFoldExpr fe fi ft (Expr (KBinary k lhs rhs) sp t) =
     bind (fe lhs) (\<lambda>lhs'.
     bind (fe rhs) (\<lambda>rhs'.
     ret (Expr (KBinary k lhs' rhs') sp t)))"
| "superFoldExpr fe fi ft (Expr (KUnary k rhs) sp t) =
     bind (fe rhs) (\<lambda>rhs'. ret (Expr (KUnary k rhs') sp t))"
| "superFoldExpr fe fi ft (Expr (KCall lhs args) sp t) =
     bind (fe lhs) (\<lambda>lhs'.
     bind (mapM fe args) (\<lambda>args'.
     ret (Expr (KCall lhs' args') sp t)))"
| "superFoldExpr fe fi ft (Expr (KFieldAccess lhs fld) sp t) =
     bind (fe lhs) (\<lambda>lhs'. ret (Expr (KFieldAccess lhs' fld) sp t))"
| "superFoldExpr fe fi ft (Expr (KIf c th el) sp t) =
     bind (fe c) (\<lambda>c'.
     bind (fe th) (\<lambda>th'.
     bind (mapOpt fe el) (\<lambda>el'.
     ret (Expr (KIf c' th' el') sp t))))"
| "superFoldExpr fe fi ft (Expr (KLoop body lid) sp t) =
     bind (fe body) (\<lambda>body'. ret (Expr (KLoop body' lid) sp t))"
| "superFoldExpr fe fi ft (Expr (KBreak target) sp t) = ret (Expr (KBreak target) sp t)"
| "superFoldExpr fe fi ft (Expr (KStructLiteral name flds) sp t) =
     bind (fi name) (\<lambda>name'.
     bind (mapM (\<lambda>f. bind (fe (slf_expr f)) (\<lambda>e'.
                  ret (StructLiteralField (slf_name f) e' None))) flds) (\<lambda>flds'.
     ret (Expr (KStructLiteral name' flds') sp t)))"
| "superFoldExpr fe fi ft (Expr (KTupleLiteral flds) sp t) =
     bind (mapM fe flds) (\<lambda>flds'. ret (Expr (KTupleLiteral flds') sp t))"
| "superFoldExpr fe fi ft (Expr KAsm sp t) = ret (Expr KAsm sp t)"
| "superFoldExpr fe fi ft (Expr (KError err) sp t) = ret (Expr (KError err) sp t)"

text \<open>The children a super-fold hands to the folder.\<close>

fun subexprs :: "expr \<Rightarrow> expr list" where
  "subexprs (Expr (KLet name aty rhs loc) sp t) = [rhs]"
| "subexprs (Expr (KAssign lhs rhs) sp t) = [lhs, rhs]"
| "subexprs (Expr (KBlock exprs locals) sp t) = exprs"
| "subexprs (Expr (KBinary k lhs rhs) sp t) = [lhs, rhs]"
| "subexprs (Expr (KUnary k rhs) sp t) = [rhs]"
| "subexprs (Expr (KCall lhs args) sp t) = lhs # args"
| "subexprs (Expr (KFieldAccess lhs fld) sp t) = [lhs]"
| "subexprs (Expr (KIf c th el) sp t) = c # th # (case el of None \<Rightarrow> [] | Some e \<Rightarrow> [e])"
| "subexprs (Expr (KLoop body lid) sp t) = [body]"
| "subexprs (Expr (KStructLiteral name flds) sp t) = map slf_expr flds"
| "subexprs (Expr (KTupleLiteral flds) sp t) = flds"
| "subexprs (Expr KEmpty sp t) = []"
| "subexprs (Expr (KLiteral v) sp t) = []"
| "subexprs (Expr (KIdent v) sp t) = []"
| "subexprs (Expr (KPath segs res vsp) sp t) = []"
| "subexprs (Expr (KBreak target) sp t) = []"
| "subexprs (Expr KAsm sp t) = []"
| "subexprs (Expr (KError err) sp t) = []"

lemma superFoldExpr_cong [fundef_cong]:
  "e = e' \<Longrightarrow> (\<And>x. x \<in> set (subexprs e') \<Longrightarrow> fe x = fe' x) \<Longrightarrow> fi = fi' \<Longrightarrow> ft = ft'
    \<Longrightarrow> superFoldExpr fe fi ft e = superFoldExpr fe' fi' ft' e'"
proof -
  assume e: "e = e'" and fe: "\<And>x. x \<in> set (subexprs e') \<Longrightarrow> fe x = fe' x"
    and fi: "fi = fi'" and ft: "ft = ft'"
  obtain k sp t where e': "e' = Expr k sp t" by (cases e')
  show ?thesis
    using fe unfolding e fi ft e'
    by (cases k) (auto cong: mapM_cong mapOpt_cong split: option.splits)
qed

lemma size_slf_expr: "f \<in> set flds \<Longrightarrow> size (slf_expr f) < Suc (size_list size flds)"
proof (induction flds)
  case Nil
  then show ?case by simp
next
  case (Cons g gs)
  then show ?case by (cases g) auto
qed

lemma size_subexprs: "x \<in> set (subexprs e) \<Longrightarrow> size x < size e"
  by (cases e rule: subexprs.cases) (auto split: option.splits dest: size_slf_expr size_list_member)

text \<open>
  \<open>superFoldItem\<close>.  The parameters and the struct fields keep their names and have their types
  folded; a module hands its contents to the folder's \<open>item\<close>.
\<close>

definition foldArg :: "(astty \<Rightarrow> (astty, 's) run) \<Rightarrow> function_arg \<Rightarrow> (function_arg, 's) run" where
  "foldArg ft a = bind (ft (fa_type a)) (\<lambda>t'. ret (FunctionArg (fa_ident a) t'))"

definition foldFieldDef :: "(astty \<Rightarrow> (astty, 's) run) \<Rightarrow> field_def \<Rightarrow> (field_def, 's) run" where
  "foldFieldDef ft d = bind (ft (fd_type d)) (\<lambda>t'. ret (FieldDef (fd_name d) t'))"

fun superFoldItem ::
  "(item \<Rightarrow> (item, 's) run) \<Rightarrow> (expr \<Rightarrow> (expr, 's) run) \<Rightarrow> (astty \<Rightarrow> (astty, 's) run)
    \<Rightarrow> item \<Rightarrow> (item, 's) run" where
  "superFoldItem fit fe ft (Item (IFunction params body returnType fty) sp iid name dp) =
     bind (mapM (foldArg ft) params) (\<lambda>args.
     bind (fe body) (\<lambda>body'.
     bind (mapOpt ft returnType) (\<lambda>returnType'.
     ret (Item (IFunction args body' returnType' fty) sp iid name dp))))"
| "superFoldItem fit fe ft (Item (IType genericParams (TDStruct flds) tty) sp iid name dp) =
     bind (mapM (foldFieldDef ft) flds) (\<lambda>flds'.
     ret (Item (IType genericParams (TDStruct flds') tty) sp iid name dp))"
| "superFoldItem fit fe ft (Item (IType genericParams (TDAlias a) tty) sp iid name dp) =
     bind (ft a) (\<lambda>a'.
     ret (Item (IType genericParams (TDAlias a') tty) sp iid name dp))"
| "superFoldItem fit fe ft (Item (IImport module func params returnType fty) sp iid name dp) =
     bind (mapM (foldArg ft) params) (\<lambda>args.
     bind (mapOpt ft returnType) (\<lambda>returnType'.
     ret (Item (IImport module func args returnType' fty) sp iid name dp)))"
| "superFoldItem fit fe ft (Item (IMod contents) sp iid name dp) =
     bind (mapM fit contents) (\<lambda>contents'.
     ret (Item (IMod contents') sp iid name dp))"
| "superFoldItem fit fe ft (Item IExtern sp iid name dp) = ret (Item IExtern sp iid name dp)"
| "superFoldItem fit fe ft (Item (IGlobal gty init tty) sp iid name dp) =
     bind (ft gty) (\<lambda>gty'.
     bind (fe init) (\<lambda>init'.
     ret (Item (IGlobal gty' init' tty) sp iid name dp)))"
| "superFoldItem fit fe ft (Item (IUse segments res) sp iid name dp) =
     ret (Item (IUse segments res) sp iid name dp)"
| "superFoldItem fit fe ft (Item (IError err) sp iid name dp) =
     ret (Item (IError err) sp iid name dp)"

fun subitems :: "item \<Rightarrow> item list" where
  "subitems (Item (IMod contents) sp iid name dp) = contents"
| "subitems (Item k sp iid name dp) = []"

lemma superFoldItem_cong [fundef_cong]:
  "i = i' \<Longrightarrow> (\<And>x. x \<in> set (subitems i') \<Longrightarrow> fit x = fit' x) \<Longrightarrow> fe = fe' \<Longrightarrow> ft = ft'
    \<Longrightarrow> superFoldItem fit fe ft i = superFoldItem fit' fe' ft' i'"
proof -
  assume i: "i = i'" and fit: "\<And>x. x \<in> set (subitems i') \<Longrightarrow> fit x = fit' x"
    and fe: "fe = fe'" and ft: "ft = ft'"
  obtain k sp iid name dp where i': "i' = Item k sp iid name dp" by (cases i')
  show ?thesis
  proof (cases k)
    case (IType gp d tty)
    then show ?thesis unfolding i fe ft i' by (cases d) auto
  next
    case (IMod contents)
    then show ?thesis using fit unfolding i fe ft i' by (auto cong: mapM_cong)
  qed (auto simp: i fe ft i')
qed

lemma size_subitems: "x \<in> set (subitems i) \<Longrightarrow> size x < size i"
  by (cases i rule: subitems.cases) (auto dest: size_list_member)

text \<open>
  The default folder's \<open>item\<close> method (\<open>mkDefaultFolder\<close>): fold the item with \<open>itemInner\<close>
  and enter the result in the new by-id table under its id.  \<open>put\<close> writes the table of
  the folder's state.
\<close>

definition folder_item ::
  "(item_id \<Rightarrow> item \<Rightarrow> 's \<Rightarrow> 's) \<Rightarrow> (item \<Rightarrow> (item, 's) run) \<Rightarrow> item \<Rightarrow> (item, 's) run" where
  "folder_item put itemInner i =
     bind (itemInner i) (\<lambda>newItem. (\<lambda>s. Inr (newItem, put (i_id newItem) newItem s)))"

lemma folder_item_cong [fundef_cong]:
  "i = i' \<Longrightarrow> itemInner i' = itemInner' i' \<Longrightarrow> put = put'
    \<Longrightarrow> folder_item put itemInner i = folder_item put' itemInner' i'"
  by (simp add: folder_item_def)

text \<open>\<open>foldAst\<close>: fold the root items; the new package takes the folder's new table.\<close>

definition foldAst ::
  "('s \<Rightarrow> (item_id \<rightharpoonup> item)) \<Rightarrow> (item \<Rightarrow> (item, 's) run) \<Rightarrow> pkg \<Rightarrow> (pkg, 's) run" where
  "foldAst newItemsById fit ast =
     bind (mapM fit (rootItems ast)) (\<lambda>items. (\<lambda>s.
       Inr (\<lparr> pkg_id = pkg_id ast, rootItems = items, itemsById = newItemsById s,
              packageName = packageName ast, fatalError = fatalError ast \<rparr>, s)))"


section \<open>The builder (buildPkg)\<close>

text \<open>
  Modelled from the spec: the counter class \<open>Ids\<close> (\<open>utils.ts\<close>) is not among the sources.
  The spec has "a counter over items per package starts at 1 (0 is the root module)" and
  "a counter over loops per package starts at 0", and \<open>buildPkg\<close> draws the root's id
  before any item's: a counter starts at 0 and \<open>next()\<close> returns its value and advances it.
\<close>

definition ids_next :: "nat \<Rightarrow> nat \<times> nat" where
  "ids_next c = (c, Suc c)"

record bstate =
  b_itemId :: nat
  b_loopId :: nat
  b_newItemsById :: "item_id \<rightharpoonup> item"

definition nextItemId :: "(nat, bstate) run" where
  "nextItemId = (\<lambda>s. Inr (fst (ids_next (b_itemId s)), s\<lparr> b_itemId := snd (ids_next (b_itemId s)) \<rparr>))"

definition nextLoopId :: "(nat, bstate) run" where
  "nextLoopId = (\<lambda>s. Inr (fst (ids_next (b_loopId s)), s\<lparr> b_loopId := snd (ids_next (b_loopId s)) \<rparr>))"

definition b_put :: "item_id \<Rightarrow> item \<Rightarrow> bstate \<Rightarrow> bstate" where
  "b_put iid i s = s\<lparr> b_newItemsById := (b_newItemsById s)(iid \<mapsto> i) \<rparr>"

text \<open>\<open>{...e, loopId: n}\<close> and \<open>{...item, id}\<close>.\<close>

definition with_loopId :: "loop_id \<Rightarrow> expr \<Rightarrow> expr" where
  "with_loopId n e =
     (case e of Expr (KLoop body lid) sp t \<Rightarrow> Expr (KLoop body n) sp t | _ \<Rightarrow> e)"

definition with_id :: "item_id \<Rightarrow> item \<Rightarrow> item" where
  "with_id iid i = Item (i_kind i) (i_span i) iid (i_name i) (i_defPath i)"

text \<open>
  The assigner folder.  A loop is folded first and draws its id after (the spread is
  evaluated before \<open>loopId.next()\<close>); an item draws its id before it is folded.
\<close>

function (sequential) assigner_expr :: "expr \<Rightarrow> (expr, bstate) run" where
  "assigner_expr (Expr (KLoop body lid) sp t) =
     bind (superFoldExpr assigner_expr ret ret (Expr (KLoop body lid) sp t)) (\<lambda>e'.
     bind nextLoopId (\<lambda>n.
     ret (with_loopId n e')))"
| "assigner_expr e = superFoldExpr assigner_expr ret ret e"
  by pat_completeness auto
termination
  by (relation "measure size") (simp_all only: wf_measure in_measure size_subexprs)

function assigner_itemInner :: "nat \<Rightarrow> item \<Rightarrow> (item, bstate) run" where
  "assigner_itemInner pid i =
     bind nextItemId (\<lambda>n.
     bind (superFoldItem (folder_item b_put (assigner_itemInner pid)) assigner_expr ret i) (\<lambda>i'.
     ret (with_id (ItemId pid n) i')))"
  by pat_completeness auto
termination
  by (relation "measure (\<lambda>(pid, i). size i)") (simp_all add: size_subitems)

definition buildPkg :: "string \<Rightarrow> item list \<Rightarrow> nat \<Rightarrow> error_emitted option \<Rightarrow> abort + pkg" where
  "buildPkg name items pid fatal =
     (let ast = \<lparr> pkg_id = pid, rootItems = items, itemsById = Map.empty,
                   packageName = name, fatalError = fatal \<rparr>;
          s0 = \<lparr> b_itemId = snd (ids_next 0), b_loopId = 0, b_newItemsById = Map.empty \<rparr>
      in case foldAst b_newItemsById (folder_item b_put (assigner_itemInner pid)) ast s0 of
           Inl e \<Rightarrow> Inl e
         | Inr (built, s) \<Rightarrow> Inr built)"

section \<open>The validator (validateAst)\<close>

record vstate =
  seenItemIds :: "item_id set"
  v_errors :: "diag list"
  v_newItemsById :: "item_id \<rightharpoonup> item"

text \<open>\<open>gcx.error.emitError\<close>: the diagnostic is appended to the sink.\<close>

definition v_emitError :: "diag \<Rightarrow> (error_emitted, vstate) run" where
  "v_emitError d = (\<lambda>s. Inr (ErrorEmitted, s\<lparr> v_errors := v_errors s @ [d] \<rparr>))"

definition v_put :: "item_id \<Rightarrow> item \<Rightarrow> vstate \<Rightarrow> vstate" where
  "v_put iid i s = s\<lparr> v_newItemsById := (v_newItemsById s)(iid \<mapsto> i) \<rparr>"

definition checkPrecedence :: "binary_kind \<Rightarrow> span \<Rightarrow> expr \<Rightarrow> string \<Rightarrow> (unit, vstate) run" where
  "checkPrecedence ourKind sp inner side =
     (case kind inner of
        KBinary innerKind l r \<Rightarrow>
          if binaryExprPrecedenceClass ourKind \<noteq> binaryExprPrecedenceClass innerKind
          then bind (v_emitError (CompilerError (MixingOperators side innerKind ourKind) sp))
                 (\<lambda>_. ret ())
          else ret ()
      | _ \<Rightarrow> ret ())"

text \<open>
  In a block the validator visits the right-hand side of each \<open>let\<close> element (and its
  type, which the validator returns as it is) and every other element itself; the
  block is returned as it is.
\<close>

definition let_rhs :: "expr \<Rightarrow> expr option" where
  "let_rhs e = (case kind e of KLet name aty rhs loc \<Rightarrow> Some rhs | _ \<Rightarrow> None)"

lemma size_let_rhs: "let_rhs e = Some rhs \<Longrightarrow> size rhs < size e"
  by (cases e) (auto simp: let_rhs_def split: expr_kind.splits)

function (sequential) validator_expr :: "expr \<Rightarrow> (expr, vstate) run" where
  "validator_expr (Expr (KBlock exprs locals) sp t) =
     bind (mapM (\<lambda>inner. case let_rhs inner of
                   Some rhs \<Rightarrow> validator_expr rhs
                 | None \<Rightarrow> validator_expr inner) exprs) (\<lambda>_.
     ret (Expr (KBlock exprs locals) sp t))"
| "validator_expr (Expr (KLet name aty rhs loc) sp t) =
     bind (v_emitError (CompilerError LetOnlyInBlocks sp)) (\<lambda>_.
     superFoldExpr validator_expr ret ret (Expr (KLet name aty rhs loc) sp t))"
| "validator_expr (Expr (KBinary k lhs rhs) sp t) =
     bind (checkPrecedence k sp lhs ''left'') (\<lambda>_.
     bind (checkPrecedence k sp rhs ''right'') (\<lambda>_.
     superFoldExpr validator_expr ret ret (Expr (KBinary k lhs rhs) sp t)))"
| "validator_expr e = superFoldExpr validator_expr ret ret e"
  by pat_completeness auto
termination
proof (relation "measure size", goal_cases)
  case 1
  show ?case by simp
next
  case (2 exprs locals sp t inner)
  then show ?case
    using size_list_member[of inner exprs] by simp
next
  case (3 exprs locals sp t inner rhs)
  then show ?case
    using size_let_rhs[of inner rhs] size_list_member[of inner exprs] by simp
qed (simp_all only: in_measure size_subexprs)

function validator_itemInner :: "item \<Rightarrow> (item, vstate) run" where
  "validator_itemInner i =
     (\<lambda>s. if i_id i \<in> seenItemIds s then Inl (DuplicateItemId (i_id i) (i_name i))
          else superFoldItem (folder_item v_put validator_itemInner) validator_expr ret i
                 (s\<lparr> seenItemIds := insert (i_id i) (seenItemIds s) \<rparr>))"
  by pat_completeness auto
termination
  by (relation "measure size") (simp_all add: size_subitems)

text \<open>
  \<open>validateAst\<close> returns nothing: it throws or it leaves its diagnostics in the sink.
  The model returns the sink.
\<close>

definition validateAst :: "pkg \<Rightarrow> diag list \<Rightarrow> abort + diag list" where
  "validateAst ast sink =
     (case foldAst v_newItemsById (folder_item v_put validator_itemInner) ast
             \<lparr> seenItemIds = {}, v_errors = sink, v_newItemsById = Map.empty \<rparr> of
        Inl e \<Rightarrow> Inl e
      | Inr (p, s) \<Rightarrow> Inr (v_errors s))"


section \<open>The resolver (resolve)\<close>

text \<open>
  The global context and the helpers behind it are not among the sources; the resolver
  takes what it uses of them as parameters: the finalized dependency crates (package
  name and id), \<open>findItem\<close>, the crate loader (the root items of the crate it loads) and
  the merge of two spans.  The loader is taken as a function of the name, and the list
  of finalized crates as fixed while one package is resolved.
\<close>

record gcx =
  finalizedCrates :: "(string \<times> nat) list"
  findItem :: "item_id \<Rightarrow> pkg \<Rightarrow> item"
  crateLoader :: "string \<Rightarrow> span \<Rightarrow> item list"
  span_merge :: "span \<Rightarrow> span \<Rightarrow> span"

record rcx =
  cx_ast :: pkg
  cx_gcx :: gcx

text \<open>
  The variables the resolver's closures share: the stack of local names and the stack
  of block-local lists (both fresh for each module), the cache of module contents and
  the new by-id table (both of the whole run).
\<close>

record rstate =
  scopes :: "string list"
  blockLocals :: "local_info list list"
  modContentsCache :: "item_id \<rightharpoonup> (string \<rightharpoonup> item_id)"
  r_newItemsById :: "item_id \<rightharpoonup> item"

definition r_put :: "item_id \<Rightarrow> item \<Rightarrow> rstate \<Rightarrow> rstate" where
  "r_put iid i s = s\<lparr> r_newItemsById := (r_newItemsById s)(iid \<mapsto> i) \<rparr>"

text \<open>\<open>new Map(items.map(item => [name, id]))\<close>: of two items of one name the later is kept.\<close>

definition contentsMap :: "item list \<Rightarrow> (string \<rightharpoonup> item_id)" where
  "contentsMap items = map_of (rev (map (\<lambda>i. (i_name i, i_id i)) items))"

definition loadCrate :: "rcx \<Rightarrow> string \<Rightarrow> span \<Rightarrow> (string \<rightharpoonup> item_id)" where
  "loadCrate cx name sp = contentsMap (crateLoader (cx_gcx cx) name sp)"

definition resolveModItem :: "rcx \<Rightarrow> item \<Rightarrow> string \<Rightarrow> (item_id option, rstate) run" where
  "resolveModItem cx i name =
     (\<lambda>s. case modContentsCache s (i_id i) of
             Some cachedContents \<Rightarrow> Inr (cachedContents name, s)
           | None \<Rightarrow>
               (let contents = (case i_kind i of
                                  IMod cs \<Rightarrow> contentsMap cs
                                | _ \<Rightarrow> loadCrate cx (i_name i) (i_span i))
                in Inr (contents name,
                        s\<lparr> modContentsCache := (modContentsCache s)(i_id i \<mapsto> contents) \<rparr>)))"

text \<open>
  The loop of \<open>resolveIdent\<close> over the stack of local names, from the top down:
  \<open>scanScopes scopes name n\<close> has the indices below \<open>n\<close> left to try and returns the index
  of the match.
\<close>

fun scanScopes :: "string list \<Rightarrow> string \<Rightarrow> nat \<Rightarrow> nat option" where
  "scanScopes scs name 0 = None"
| "scanScopes scs name (Suc i) =
     (if scs ! i = name then Some i else scanScopes scs name i)"

definition resolveIdent ::
  "rcx \<Rightarrow> (string \<rightharpoonup> item_id) \<Rightarrow> string list \<Rightarrow> ident \<Rightarrow> abort + resolution" where
  "resolveIdent cx items scs ident =
     (let lastIdx = length scs - 1 in
      case scanScopes scs (id_name ident) (length scs) of
        Some i \<Rightarrow> Inr (ResLocal (lastIdx - i))
      | None \<Rightarrow>
     (case items (id_name ident) of
        Some i \<Rightarrow> Inr (ResItem i)
      | None \<Rightarrow>
     (case find (\<lambda>crate. id_name ident = fst crate)
             ((packageName (cx_ast cx), pkg_id (cx_ast cx)) # finalizedCrates (cx_gcx cx)) of
        Some crate \<Rightarrow> Inr (ResItem (pkgRoot (snd crate)))
      | None \<Rightarrow>
     (if id_name ident \<in> set BUILTINS then Inr (ResBuiltin (id_name ident))
      else Inl (Thrown (CompilerError (CannotFind (id_name ident)) (id_span ident)))))))"

definition resolveIdentM :: "rcx \<Rightarrow> (string \<rightharpoonup> item_id) \<Rightarrow> ident \<Rightarrow> (resolution, rstate) run" where
  "resolveIdentM cx items ident =
     (\<lambda>s. case resolveIdent cx items (scopes s) ident of
             Inl e \<Rightarrow> Inl e
           | Inr res \<Rightarrow> Inr (res, s))"

text \<open>The resolver's \<open>ident\<close> and \<open>type\<close> methods.\<close>

definition resolver_ident :: "rcx \<Rightarrow> (string \<rightharpoonup> item_id) \<Rightarrow> ident \<Rightarrow> (ident, rstate) run" where
  "resolver_ident cx items ident =
     bind (resolveIdentM cx items ident) (\<lambda>res.
     ret (Ident (id_name ident) (id_span ident) (Some res)))"

function resolver_type :: "rcx \<Rightarrow> (string \<rightharpoonup> item_id) \<Rightarrow> astty \<Rightarrow> (astty, rstate) run" where
  "resolver_type cx items a =
     superFoldType (resolver_type cx items) (resolver_ident cx items) a"
  by pat_completeness auto
termination
  by (relation "measure (\<lambda>(cx, items, a). size a)") (simp_all add: size_subtypes)

text \<open>
  Blocks: the depth of the stack of names is noted and a new list of locals is opened;
  after the elements the stack is cut back to the noted depth (\<open>scopes.length = n\<close>; the
  stack is never shorter than \<open>n\<close> there) and the list of locals is popped.
\<close>

definition enterBlock :: "(nat, rstate) run" where
  "enterBlock = (\<lambda>s. Inr (length (scopes s), s\<lparr> blockLocals := blockLocals s @ [[]] \<rparr>))"

definition leaveBlock :: "nat \<Rightarrow> (local_info list option, rstate) run" where
  "leaveBlock prevScopeLength =
     (\<lambda>s. Inr (if blockLocals s = [] then None else Some (last (blockLocals s)),
               s\<lparr> scopes := take prevScopeLength (scopes s),
                  blockLocals := butlast (blockLocals s) \<rparr>))"

text \<open>
  \<open>let\<close>, after its right-hand side: the name is pushed and a new local is appended to
  the list of the innermost open block.  With no open block the list read is
  \<open>undefined\<close> and the call of its \<open>push\<close> is a \<open>TypeError\<close>.
\<close>

definition declareLocal :: "ident \<Rightarrow> (local_info, rstate) run" where
  "declareLocal name =
     (\<lambda>s. let s1 = s\<lparr> scopes := scopes s @ [id_name name] \<rparr>;
              local = LocalInfo (id_name name) (id_span name) None
          in if blockLocals s1 = [] then Inl TypeError
             else Inr (local,
                       s1\<lparr> blockLocals :=
                            butlast (blockLocals s1) @ [last (blockLocals s1) @ [local]] \<rparr>))"

text \<open>
  The conversion of a field access whose resolved left-hand side names a module: the
  result is the path, or nothing when the access is not to a module.  The path node is
  built afresh; its resolution is written where \<open>ExprPath\<close> declares it.
\<close>

definition is_module :: "item \<Rightarrow> bool" where
  "is_module i = (case i_kind i of IMod cs \<Rightarrow> True | IExtern \<Rightarrow> True | _ \<Rightarrow> False)"

definition lhsResolution ::
  "rcx \<Rightarrow> (string \<rightharpoonup> item_id) \<Rightarrow> expr \<Rightarrow> ((resolution \<times> string list) option, rstate) run" where
  "lhsResolution cx items lhs =
     (case kind lhs of
        KIdent v \<Rightarrow> bind (resolveIdentM cx items v) (\<lambda>res. ret (Some (res, [id_name v])))
      | KPath segments res vsp \<Rightarrow> ret (Some (res, segments))
      | _ \<Rightarrow> ret None)"

definition modulePath ::
  "rcx \<Rightarrow> (string \<rightharpoonup> item_id) \<Rightarrow> expr \<Rightarrow> field \<Rightarrow> (expr option, rstate) run" where
  "modulePath cx items lhs fld =
     bind (lhsResolution cx items lhs) (\<lambda>rs.
       case rs of
         Some (ResItem rid, segments) \<Rightarrow>
           (let module = findItem (cx_gcx cx) rid (cx_ast cx) in
            if is_module module then
              (case f_value fld of
                 FieldNum n \<Rightarrow>
                   throw (Thrown (CompilerError ModuleIndexedWithNumber (f_span fld)))
               | FieldName fname \<Rightarrow>
                   bind (resolveModItem cx module fname) (\<lambda>pathResItem.
                     case pathResItem of
                       None \<Rightarrow>
                         throw (Thrown (CompilerError (ModuleHasNoItem (i_name module) fname)
                                          (f_span fld)))
                     | Some pathRes \<Rightarrow>
                         (let sp = span_merge (cx_gcx cx) (span lhs) (f_span fld) in
                          ret (Some (Expr (KPath (segments @ [fname]) (ResItem pathRes) sp)
                                       sp None)))))
            else ret None)
       | _ \<Rightarrow> ret None)"

text \<open>
  The resolver's \<open>expr\<close> method.  A field access resolves its left-hand side, and when
  that is no module the whole access goes to the super-fold, which hands the
  unresolved left-hand side to the method once more.
\<close>

function (sequential) resolver_expr ::
  "rcx \<Rightarrow> (string \<rightharpoonup> item_id) \<Rightarrow> expr \<Rightarrow> (expr, rstate) run" where
  "resolver_expr cx items (Expr (KBlock exprs locals) sp t) =
     bind enterBlock (\<lambda>prevScopeLength.
     bind (mapM (resolver_expr cx items) exprs) (\<lambda>exprs'.
     bind (leaveBlock prevScopeLength) (\<lambda>locals'.
     ret (Expr (KBlock exprs' locals') sp None))))"
| "resolver_expr cx items (Expr (KLet name aty rhs loc) sp t) =
     bind (resolver_expr cx items rhs) (\<lambda>rhs'.
     bind (mapOpt (resolver_type cx items) aty) (\<lambda>aty'.
     bind (declareLocal name) (\<lambda>local.
     ret (Expr (KLet name aty' rhs' (Some local)) sp t))))"
| "resolver_expr cx items (Expr (KFieldAccess lhs fld) sp t) =
     bind (resolver_expr cx items lhs) (\<lambda>lhs'.
     bind (modulePath cx items lhs' fld) (\<lambda>path.
       case path of
         Some p \<Rightarrow> ret p
       | None \<Rightarrow>
           superFoldExpr (resolver_expr cx items) (resolver_ident cx items)
             (resolver_type cx items) (Expr (KFieldAccess lhs fld) sp t)))"
| "resolver_expr cx items e =
     superFoldExpr (resolver_expr cx items) (resolver_ident cx items) (resolver_type cx items) e"
  by pat_completeness auto
termination
  by (relation "measure (\<lambda>(cx, items, e). size e)")
     (simp, simp_all only: in_measure prod.case size_subexprs, auto dest: size_list_member)

text \<open>The resolver's items.\<close>

fun declareItems :: "item list \<Rightarrow> (string \<rightharpoonup> item_id) \<Rightarrow> abort + (string \<rightharpoonup> item_id)" where
  "declareItems [] items = Inr items"
| "declareItems (i # rest) items =
     (case items (i_name i) of
        Some existing \<Rightarrow> Inl (Thrown (CompilerError (AlreadyDeclared (i_name i)) (i_span i)))
      | None \<Rightarrow> declareItems rest (items(i_name i \<mapsto> i_id i)))"

definition pushScope :: "string \<Rightarrow> (unit, rstate) run" where
  "pushScope name = (\<lambda>s. Inr ((), s\<lparr> scopes := scopes s @ [name] \<rparr>))"

definition popScope :: "string \<Rightarrow> (unit, rstate) run" where
  "popScope expected =
     (\<lambda>s. if scopes s = [] then Inl (ScopesCorrupted expected None)
          else if last (scopes s) \<noteq> expected
          then Inl (ScopesCorrupted expected (Some (last (scopes s))))
          else Inr ((), s\<lparr> scopes := butlast (scopes s) \<rparr>))"

definition with_defPath :: "string list \<Rightarrow> item \<Rightarrow> item" where
  "with_defPath dp i = Item (i_kind i) (i_span i) (i_id i) (i_name i) (Some dp)"

function (sequential) resolver_itemInner ::
  "rcx \<Rightarrow> string list \<Rightarrow> (string \<rightharpoonup> item_id) \<Rightarrow> item \<Rightarrow> (item, rstate) run"
and resolveModule :: "rcx \<Rightarrow> string list \<Rightarrow> item list \<Rightarrow> (item list, rstate) run" where
  "resolver_itemInner cx modName items (Item (IFunction params body returnType fty) sp iid name dp) =
     bind (mapM (foldArg (resolver_type cx items)) params) (\<lambda>params'.
     bind (mapOpt (resolver_type cx items) returnType) (\<lambda>returnType'.
     bind (mapM pushScope (map (\<lambda>a. id_name (fa_ident a)) params)) (\<lambda>_.
     bind (resolver_expr cx items body) (\<lambda>body'.
     bind (mapM popScope (rev (map (\<lambda>a. id_name (fa_ident a)) params))) (\<lambda>_.
     ret (Item (IFunction params' body' returnType' None) sp iid name
            (Some (modName @ [name]))))))))"
| "resolver_itemInner cx modName items (Item (IMod contents) sp iid name dp) =
     bind (resolveModule cx (modName @ [name]) contents) (\<lambda>contents'.
     ret (Item (IMod contents') sp iid name (Some (modName @ [name]))))"
| "resolver_itemInner cx modName items (Item IExtern sp iid name dp) =
     ret (Item IExtern sp iid name (Some (modName @ [name])))"
| "resolver_itemInner cx modName items i =
     bind (superFoldItem (folder_item r_put (resolver_itemInner cx modName items))
             (resolver_expr cx items) (resolver_type cx items) i) (\<lambda>i'.
     ret (with_defPath (modName @ [i_name i]) i'))"
| "resolveModule cx modName contents =
     (\<lambda>s. case declareItems contents Map.empty of
             Inl e \<Rightarrow> Inl e
           | Inr items \<Rightarrow>
               (case mapM (folder_item r_put (resolver_itemInner cx modName items)) contents
                       (s\<lparr> scopes := [], blockLocals := [] \<rparr>) of
                  Inl e \<Rightarrow> Inl e
                | Inr (contents', s') \<Rightarrow>
                    Inr (contents', s'\<lparr> scopes := scopes s, blockLocals := blockLocals s \<rparr>)))"
  by pat_completeness auto
termination
  by (relation "measure (\<lambda>x. case x of Inl (cx, modName, items, i) \<Rightarrow> 2 * size i
                                       | Inr (cx, modName, contents) \<Rightarrow> 2 * size_list size contents + 1)")
     (auto dest: size_list_member)

definition resolve :: "gcx \<Rightarrow> pkg \<Rightarrow> abort + pkg" where
  "resolve g ast =
     (let cx = \<lparr> cx_ast = ast, cx_gcx = g \<rparr> in
      case resolveModule cx [packageName ast] (rootItems ast)
             \<lparr> scopes = [], blockLocals = [], modContentsCache = Map.empty,
                r_newItemsById = Map.empty \<rparr> of
        Inl e \<Rightarrow> Inl e
      | Inr (rootItems', s) \<Rightarrow>
          Inr \<lparr> pkg_id = pkg_id ast, rootItems = rootItems', itemsById = r_newItemsById s,
                packageName = packageName ast, fatalError = None \<rparr>)"


section \<open>The body checker (typeck/expr.ts)\<close>

text \<open>
  The inference context (\<open>infer.ts\<close>), the lowering of signatures (\<open>item.ts\<close>) and the
  global context are not among the sources.  The checker takes as parameters: the
  lowering of an AST type and the type of an item (each with the diagnostics it
  submits), \<open>findItem\<close> with the package being checked, and the two operations of the
  inference context that read and extend the substitution, \<open>resolveIfPossible\<close> and
  \<open>assign\<close> (the latter with the diagnostics it submits).
\<close>

record tenv =
  lowerAstTy :: "astty \<Rightarrow> ty \<times> diag list"
  typeOfItem :: "item_id \<Rightarrow> span \<Rightarrow> ty \<times> diag list"
  t_findItem :: "item_id \<Rightarrow> pkg \<Rightarrow> item"
  t_ast :: pkg
  resolveIfPossible :: "(nat \<rightharpoonup> ty) \<Rightarrow> ty \<Rightarrow> ty"
  assign :: "(nat \<rightharpoonup> ty) \<Rightarrow> ty \<Rightarrow> ty \<Rightarrow> span \<Rightarrow> (nat \<rightharpoonup> ty) \<times> diag list"

datatype loop_state = LoopState (hasBreak: bool) (ls_loopId: loop_id)

text \<open>
  The state of one body check: the function context (\<open>localTys\<close>, \<open>loopState\<close>), the
  inference context (the next fresh variable and the substitution) and the error sink.
  \<open>localWrites\<close> lists the writes \<open>expr.local.ty = bindingTy\<close> in the order they are made:
  the \<open>LocalInfo\<close> object written is shared with the enclosing block's \<open>locals\<close>, and the
  model keeps the writes apart instead of the sharing.
\<close>

record fstate =
  localTys :: "ty list"
  loopState :: "loop_state list"
  nextVar :: nat
  subst :: "nat \<rightharpoonup> ty"
  errors :: "diag list"
  localWrites :: "(local_info \<times> ty) list"

definition emitError :: "diag \<Rightarrow> (error_emitted, fstate) run" where
  "emitError d = (\<lambda>s. Inr (ErrorEmitted, s\<lparr> errors := errors s @ [d] \<rparr>))"

definition tyErrorFrom :: "error_emitted \<Rightarrow> ty" where
  "tyErrorFrom err = TyError err"

definition tyError :: "diag \<Rightarrow> (ty, fstate) run" where
  "tyError d = bind (emitError d) (\<lambda>err. ret (tyErrorFrom err))"

definition exprError :: "error_emitted \<Rightarrow> span \<Rightarrow> expr" where
  "exprError err sp = Expr (KError err) sp (Some (tyErrorFrom err))"

text \<open>
  Modelled from the spec: \<open>InferContext.newVar\<close> is not among the sources.  The spec has
  "\<open>newVar() \<rightarrow> var\<close>: fresh monotonically increasing identifier".
\<close>

definition newVar :: "(ty, fstate) run" where
  "newVar = (\<lambda>s. Inr (TyVar (nextVar s), s\<lparr> nextVar := Suc (nextVar s) \<rparr>))"

definition resolveIfPossibleM :: "tenv \<Rightarrow> ty \<Rightarrow> (ty, fstate) run" where
  "resolveIfPossibleM env a = (\<lambda>s. Inr (resolveIfPossible env (subst s) a, s))"

definition assignM :: "tenv \<Rightarrow> ty \<Rightarrow> ty \<Rightarrow> span \<Rightarrow> (unit, fstate) run" where
  "assignM env expected actual sp =
     (\<lambda>s. case assign env (subst s) expected actual sp of
             (sub', ds) \<Rightarrow> Inr ((), s\<lparr> subst := sub', errors := errors s @ ds \<rparr>))"

definition lowerAstTyM :: "tenv \<Rightarrow> astty \<Rightarrow> (ty, fstate) run" where
  "lowerAstTyM env a =
     (\<lambda>s. case lowerAstTy env a of (lowered, ds) \<Rightarrow> Inr (lowered, s\<lparr> errors := errors s @ ds \<rparr>))"

definition typeOfItemM :: "tenv \<Rightarrow> item_id \<Rightarrow> span \<Rightarrow> (ty, fstate) run" where
  "typeOfItemM env iid sp =
     (\<lambda>s. case typeOfItem env iid sp of (ity, ds) \<Rightarrow> Inr (ity, s\<lparr> errors := errors s @ ds \<rparr>))"

text \<open>
  Reading the type slot of a checked node.  A node without the slot reads as
  \<open>undefined\<close>, and every reader goes on to read a property of it: a \<open>TypeError\<close>.
\<close>

definition tyOf :: "expr \<Rightarrow> (ty, fstate) run" where
  "tyOf e = (case ty e of None \<Rightarrow> throw TypeError | Some a \<Rightarrow> ret a)"

definition set_ty :: "ty \<Rightarrow> expr \<Rightarrow> expr" where
  "set_ty a e = Expr (kind e) (span e) (Some a)"

definition typeOfBuiltinValue :: "string \<Rightarrow> span \<Rightarrow> (ty, fstate) run" where
  "typeOfBuiltinValue name sp =
     (if name = ''false'' \<or> name = ''true'' then ret TyBool
      else if name = ''print'' then ret (mkTyFn [TyString] TyUnit)
      else if name = ''trap'' then ret (mkTyFn [] TyNever)
      else if name = ''__NULL'' then bind newVar (\<lambda>inner. ret (TyRawPtr inner))
      else if name = ''__i32_store'' then ret (mkTyFn [TyI32, TyI32] TyUnit)
      else if name = ''__i64_store'' then ret (mkTyFn [TyI32, TyInt] TyUnit)
      else if name = ''__i32_load'' then ret (mkTyFn [TyI32] TyI32)
      else if name = ''__i64_load'' then ret (mkTyFn [TyI32] TyInt)
      else if name = ''__memory_size'' then ret (mkTyFn [] TyI32)
      else if name = ''__memory_grow'' then ret (mkTyFn [TyI32] TyI32)
      else if name = ''__i32_extend_to_i64_u'' then ret (mkTyFn [TyI32] TyInt)
      else tyError (CompilerError (CannotBeUsedAsValue name) sp))"

text \<open>
  \<open>typeOfValue\<close>.  A local index beyond the stack reads \<open>undefined\<close> from the array, and
  so does the resolution of an identifier that has none; the model aborts there with the
  \<open>TypeError\<close> the first use of the value raises.
\<close>

definition typeOfValue :: "tenv \<Rightarrow> resolution option \<Rightarrow> span \<Rightarrow> (ty, fstate) run" where
  "typeOfValue env res sp =
     (case res of
        None \<Rightarrow> throw TypeError
      | Some (ResLocal index) \<Rightarrow>
          (\<lambda>s. if index < length (localTys s)
               then Inr (localTys s ! (length (localTys s) - 1 - index), s)
               else Inl TypeError)
      | Some (ResItem iid) \<Rightarrow> typeOfItemM env iid sp
      | Some (ResBuiltin name) \<Rightarrow> typeOfBuiltinValue name sp
      | Some (ResTyParam index name) \<Rightarrow> tyError (CompilerError TypeParamAsValue sp)
      | Some (ResError err) \<Rightarrow> ret (tyErrorFrom err))"

text \<open>
  \<open>checkBinary\<close>, from after its two calls of \<open>fcx.checkExpr\<close>: \<open>lhs0\<close> and \<open>rhs0\<close> are the
  checked operands.  The early returns are written as one chain of conditions in the
  order of the source.
\<close>

definition rawptr_inner :: "ty \<Rightarrow> ty option" where
  "rawptr_inner a = (case a of TyRawPtr inner \<Rightarrow> Some inner | _ \<Rightarrow> None)"

definition checkBinary ::
  "tenv \<Rightarrow> binary_kind \<Rightarrow> expr \<Rightarrow> expr \<Rightarrow> span \<Rightarrow> (expr, fstate) run" where
  "checkBinary env k lhs0 rhs0 sp =
     bind (tyOf lhs0) (\<lambda>l0.
     bind (tyOf rhs0) (\<lambda>r0.
     bind (resolveIfPossibleM env l0) (\<lambda>lhsTy.
     bind (resolveIfPossibleM env r0) (\<lambda>rhsTy.
       (let node = (\<lambda>a. Expr (KBinary k (set_ty lhsTy lhs0) (set_ty rhsTy rhs0)) sp (Some a));
            comparison = (k \<in> set COMPARISON_KINDS)
        in if comparison \<and> lhsTy = TyInt \<and> rhsTy = TyInt then ret (node TyBool)
           else if comparison \<and> lhsTy = TyI32 \<and> rhsTy = TyI32 then ret (node TyBool)
           else if comparison \<and> lhsTy = TyString \<and> rhsTy = TyString then ret (node TyBool)
           else if comparison \<and> rawptr_inner lhsTy \<noteq> None \<and> rawptr_inner rhsTy \<noteq> None
             then bind (assignM env (the (rawptr_inner lhsTy)) (the (rawptr_inner rhsTy)) sp)
                    (\<lambda>_. ret (node TyBool))
           else if comparison \<and> k \<in> set EQUALITY_KINDS \<and> lhsTy = TyBool \<and> rhsTy = TyBool
             then ret (node TyBool)
           else if lhsTy = TyInt \<and> rhsTy = TyInt then ret (node TyInt)
           else if lhsTy = TyI32 \<and> rhsTy = TyI32 then ret (node TyI32)
           else if k \<in> set LOGICAL_KINDS \<and> lhsTy = TyBool \<and> rhsTy = TyBool
             then ret (node TyBool)
           else bind (tyError (CompilerError (InvalidBinaryTypes lhsTy k rhsTy) sp))
                  (\<lambda>a. ret (node a)))))))"

text \<open>\<open>checkUnary\<close>: \<open>rhs\<close> is the checked operand with its type resolved.\<close>

definition checkUnary :: "unary_kind \<Rightarrow> expr \<Rightarrow> span \<Rightarrow> (expr, fstate) run" where
  "checkUnary k rhs sp =
     bind (tyOf rhs) (\<lambda>rhsTy.
       if k = Not \<and> (rhsTy = TyInt \<or> rhsTy = TyI32 \<or> rhsTy = TyBool)
       then ret (Expr (KUnary k rhs) sp (Some rhsTy))
       else bind (tyError (CompilerError (InvalidUnaryTypes k rhsTy) sp))
              (\<lambda>a. ret (Expr (KUnary k rhs) sp (Some a))))"

text \<open>\<open>checkCall\<close>: the test for the transmute intrinsic, and the part after the callee and
  the arguments have been checked.\<close>

definition isTransmute :: "expr \<Rightarrow> (bool, fstate) run" where
  "isTransmute lhs =
     (case kind lhs of
        KIdent v \<Rightarrow> (case id_res v of
                       None \<Rightarrow> throw TypeError
                     | Some res \<Rightarrow> ret (res = ResBuiltin ''___transmute''))
      | _ \<Rightarrow> ret False)"

fun assignParams :: "tenv \<Rightarrow> span \<Rightarrow> ty list \<Rightarrow> expr list \<Rightarrow> (unit, fstate) run" where
  "assignParams env sp [] args = ret ()"
| "assignParams env sp (p # ps) [] =
     bind (emitError (CompilerError (MissingArgument p) sp)) (\<lambda>_. assignParams env sp ps [])"
| "assignParams env sp (p # ps) (a # as) =
     bind (tyOf a) (\<lambda>aty.
     bind (assignM env p aty (span a)) (\<lambda>_. assignParams env sp ps as))"

definition checkCallArgs :: "tenv \<Rightarrow> expr \<Rightarrow> ty \<Rightarrow> expr list \<Rightarrow> span \<Rightarrow> (expr, fstate) run" where
  "checkCallArgs env lhs lhsTy args sp =
     (case lhsTy of
        TyFn params returnTy \<Rightarrow>
          bind (assignParams env sp params args) (\<lambda>_.
          bind (if length args > length params
                then bind (emitError (CompilerError
                             (TooManyArguments (length params) (length args)) sp)) (\<lambda>_. ret ())
                else ret ()) (\<lambda>_.
          ret (Expr (KCall lhs args) sp (Some returnTy))))
      | _ \<Rightarrow>
          bind (tyError (CompilerError (NotCallable lhsTy) (span lhs))) (\<lambda>a.
          ret (Expr (KCall lhs args) sp (Some a))))"

text \<open>The type and the index of a field (\<open>fieldAccess\<close>).\<close>

fun findIndex :: "('a \<Rightarrow> bool) \<Rightarrow> 'a list \<Rightarrow> nat option" where
  "findIndex P [] = None"
| "findIndex P (x # xs) =
     (if P x then Some 0 else map_option Suc (findIndex P xs))"

definition structField ::
  "ty \<Rightarrow> (string \<times> ty) list \<Rightarrow> field \<Rightarrow> (ty \<times> nat option, fstate) run" where
  "structField lhsTy sflds fld =
     (case f_value fld of
        FieldName fname \<Rightarrow>
          (case findIndex (\<lambda>d. fst d = fname) sflds of
             None \<Rightarrow>
               bind (tyError (CompilerError (FieldDoesNotExist fname lhsTy) (f_span fld)))
                 (\<lambda>a. ret (a, None))
           | Some idx \<Rightarrow> ret (snd (sflds ! idx), Some idx))
      | FieldNum n \<Rightarrow>
          bind (tyError (CompilerError StructFieldsNeedNames (f_span fld)))
            (\<lambda>a. ret (a, None)))"

definition fieldType ::
  "tenv \<Rightarrow> ty \<Rightarrow> span \<Rightarrow> field \<Rightarrow> span \<Rightarrow> (ty \<times> nat option, fstate) run" where
  "fieldType env lhsTy lhsSpan fld sp =
     (case lhsTy of
        TyTuple elems \<Rightarrow>
          (case f_value fld of
             FieldNum n \<Rightarrow>
               if length elems > n then ret (elems ! n, Some n)
               else bind (tyError (CompilerError (TupleIndexOutOfRange (length elems) n)
                                     (f_span fld))) (\<lambda>a. ret (a, None))
           | FieldName fname \<Rightarrow>
               bind (tyError (CompilerError TupleFieldsNeedNumbers (f_span fld)))
                 (\<lambda>a. ret (a, None)))
      | TyStruct sname sflds \<Rightarrow> structField lhsTy sflds fld
      | TyRawPtr inner0 \<Rightarrow>
          bind (resolveIfPossibleM env inner0) (\<lambda>inner.
            case inner of
              TyStruct sname sflds \<Rightarrow> structField lhsTy sflds fld
            | _ \<Rightarrow> bind (tyError (CompilerError FieldsOnlyOnStructPointers lhsSpan))
                     (\<lambda>a. ret (a, None)))
      | _ \<Rightarrow>
          bind (tyError (CompilerError (CannotAccessField (f_value fld) lhsTy) sp))
            (\<lambda>a. ret (a, None)))"

text \<open>Assignment targets.\<close>

fun checkLValue :: "expr \<Rightarrow> (unit, fstate) run" where
  "checkLValue (Expr (KIdent v) sp t) = ret ()"
| "checkLValue (Expr (KPath segs res vsp) sp t) = ret ()"
| "checkLValue (Expr (KFieldAccess lhs fld) sp t) = checkLValue lhs"
| "checkLValue (Expr k sp t) =
     bind (emitError (CompilerError InvalidLhsOfAssignment sp)) (\<lambda>_. ret ())"

definition checkAssignRes :: "tenv \<Rightarrow> resolution option \<Rightarrow> span \<Rightarrow> (unit, fstate) run" where
  "checkAssignRes env res sp =
     (case res of
        None \<Rightarrow> throw TypeError
      | Some (ResItem iid) \<Rightarrow>
          (case i_kind (t_findItem env iid (t_ast env)) of
             IGlobal gty init gt \<Rightarrow> ret ()
           | _ \<Rightarrow> bind (emitError (CompilerError CannotAssignToItem sp)) (\<lambda>_. ret ()))
      | Some (ResBuiltin name) \<Rightarrow>
          bind (emitError (CompilerError CannotAssignToBuiltins sp)) (\<lambda>_. ret ())
      | _ \<Rightarrow> ret ())"

definition checkAssignTarget :: "tenv \<Rightarrow> expr \<Rightarrow> span \<Rightarrow> (unit, fstate) run" where
  "checkAssignTarget env lhs sp =
     (case kind lhs of
        KIdent v \<Rightarrow> checkAssignRes env (id_res v) sp
      | KPath segs res vsp \<Rightarrow> checkAssignRes env (Some res) sp
      | KFieldAccess l fld \<Rightarrow> checkLValue lhs
      | _ \<Rightarrow> bind (emitError (CompilerError InvalidLhsOfAssignment (span lhs))) (\<lambda>_. ret ()))"

text \<open>
  Struct literals.  For a field the struct does not have, the diagnostic is submitted
  and the field's type is then read from \<open>fields_no_subst[-1]\<close>, which is \<open>undefined\<close>: a
  \<open>TypeError\<close>.
\<close>

definition assignField ::
  "tenv \<Rightarrow> string \<Rightarrow> (string \<times> ty) list \<Rightarrow> struct_literal_field
    \<Rightarrow> (struct_literal_field, fstate) run" where
  "assignField env structName sflds f =
     (case findIndex (\<lambda>d. fst d = id_name (slf_name f)) sflds of
        None \<Rightarrow>
          bind (emitError (CompilerError
                  (FieldDoesntExistOnType (id_name (slf_name f)) structName)
                  (id_span (slf_name f)))) (\<lambda>_.
          throw TypeError)
      | Some idx \<Rightarrow>
          bind (tyOf (slf_expr f)) (\<lambda>fty.
          bind (assignM env (snd (sflds ! idx)) fty (span (slf_expr f))) (\<lambda>_.
          ret (StructLiteralField (slf_name f) (slf_expr f) (Some idx)))))"

definition reportMissing :: "(string \<times> ty) list \<Rightarrow> string list \<Rightarrow> span \<Rightarrow> (unit, fstate) run" where
  "reportMissing sflds assignedFields sp =
     (let missing = filter (\<lambda>n. n \<notin> set assignedFields) (map fst sflds)
      in if length missing > 0
         then bind (emitError (CompilerError (MissingFieldsInLiteral missing) sp)) (\<lambda>_. ret ())
         else ret ())"

text \<open>Loops and locals.\<close>

definition pushLoopState :: "loop_id \<Rightarrow> (unit, fstate) run" where
  "pushLoopState lid = (\<lambda>s. Inr ((), s\<lparr> loopState := loopState s @ [LoopState False lid] \<rparr>))"

text \<open>\<open>fcx.loopState.pop()\<close>: the record popped, or \<open>undefined\<close> from an empty stack.\<close>

definition popLoopState :: "(loop_state option, fstate) run" where
  "popLoopState =
     (\<lambda>s. Inr (if loopState s = [] then None else Some (last (loopState s)),
               s\<lparr> loopState := butlast (loopState s) \<rparr>))"

text \<open>
  The condition of \<open>hadBreak ? TY_UNIT : TY_NEVER\<close>: \<open>hadBreak\<close> holds what \<open>pop()\<close> returned,
  and in JavaScript every object is true and \<open>undefined\<close> is false.
\<close>

definition truthy :: "loop_state option \<Rightarrow> bool" where
  "truthy popped = (case popped of None \<Rightarrow> False | Some st \<Rightarrow> True)"

definition checkBreak :: "span \<Rightarrow> ty option \<Rightarrow> (expr, fstate) run" where
  "checkBreak sp t =
     (\<lambda>s. if length (loopState s) = 0
          then bind (emitError (CompilerError BreakOutsideLoop sp))
                 (\<lambda>err. ret (exprError err sp)) s
          else let top = last (loopState s);
                   target = ls_loopId top
               in Inr (Expr (KBreak (Some target)) sp (Some TyNever),
                       s\<lparr> loopState := butlast (loopState s) @ [LoopState True (ls_loopId top)] \<rparr>))"

definition pushLocalTy :: "ty \<Rightarrow> (unit, fstate) run" where
  "pushLocalTy a = (\<lambda>s. Inr ((), s\<lparr> localTys := localTys s @ [a] \<rparr>))"

definition writeLocalTy :: "local_info option \<Rightarrow> ty \<Rightarrow> (unit, fstate) run" where
  "writeLocalTy loc a =
     (case loc of
        None \<Rightarrow> throw TypeError
      | Some l \<Rightarrow> (\<lambda>s. Inr ((), s\<lparr> localWrites := localWrites s @ [(l, a)] \<rparr>)))"

definition localTysLength :: "(nat, fstate) run" where
  "localTysLength = (\<lambda>s. Inr (length (localTys s), s))"

definition truncateLocalTys :: "nat \<Rightarrow> (unit, fstate) run" where
  "truncateLocalTys n = (\<lambda>s. Inr ((), s\<lparr> localTys := take n (localTys s) \<rparr>))"

definition literalTy :: "literal \<Rightarrow> ty" where
  "literalTy v = (case v of LStr str sp \<Rightarrow> TyString
                          | LInt n LitInt \<Rightarrow> TyInt
                          | LInt n LitI32 \<Rightarrow> TyI32)"

text \<open>
  The checker's \<open>expr\<close> method.  Its switch has no case for inline assembly: the method
  returns \<open>undefined\<close>, and the model aborts there with the \<open>TypeError\<close> the caller's read of
  the type raises.
\<close>

function checkExpr :: "tenv \<Rightarrow> expr \<Rightarrow> (expr, fstate) run" where
  "checkExpr env (Expr KEmpty sp t) = ret (Expr KEmpty sp (Some TyUnit))"
| "checkExpr env (Expr (KLet name aty rhs loc) sp t) =
     bind (mapOpt (lowerAstTyM env) aty) (\<lambda>loweredBindingTy.
     bind (case loweredBindingTy of Some a \<Rightarrow> ret a | None \<Rightarrow> newVar) (\<lambda>bindingTy.
     bind (checkExpr env rhs) (\<lambda>rhs'.
     bind (tyOf rhs') (\<lambda>rhsTy.
     bind (assignM env bindingTy rhsTy sp) (\<lambda>_.
     bind (pushLocalTy bindingTy) (\<lambda>_.
     bind (writeLocalTy loc bindingTy) (\<lambda>_.
     ret (Expr (KLet name aty rhs' None) sp (Some TyUnit)))))))))"
| "checkExpr env (Expr (KAssign lhs rhs) sp t) =
     bind (checkExpr env lhs) (\<lambda>lhs'.
     bind (checkExpr env rhs) (\<lambda>rhs'.
     bind (tyOf lhs') (\<lambda>lhsTy.
     bind (tyOf rhs') (\<lambda>rhsTy.
     bind (assignM env lhsTy rhsTy sp) (\<lambda>_.
     bind (checkAssignTarget env lhs' sp) (\<lambda>_.
     ret (Expr (KAssign lhs' rhs') sp (Some TyUnit))))))))"
| "checkExpr env (Expr (KBlock exprs locals) sp t) =
     bind localTysLength (\<lambda>prevLocalTysLen.
     bind (mapM (checkExpr env) exprs) (\<lambda>exprs'.
     bind (if length exprs' > 0 then tyOf (last exprs') else ret TyUnit) (\<lambda>a.
     bind (truncateLocalTys prevLocalTysLen) (\<lambda>_.
     ret (Expr (KBlock exprs' locals) sp (Some a))))))"
| "checkExpr env (Expr (KLiteral v) sp t) = ret (Expr (KLiteral v) sp (Some (literalTy v)))"
| "checkExpr env (Expr (KIdent v) sp t) =
     bind (typeOfValue env (id_res v) (id_span v)) (\<lambda>a.
     ret (Expr (KIdent v) sp (Some a)))"
| "checkExpr env (Expr (KPath segs res vsp) sp t) =
     bind (typeOfValue env (Some res) vsp) (\<lambda>a.
     ret (Expr (KPath segs res vsp) sp (Some a)))"
| "checkExpr env (Expr (KBinary k lhs rhs) sp t) =
     bind (checkExpr env lhs) (\<lambda>lhs'.
     bind (checkExpr env rhs) (\<lambda>rhs'.
     checkBinary env k lhs' rhs' sp))"
| "checkExpr env (Expr (KUnary k rhs) sp t) =
     bind (checkExpr env rhs) (\<lambda>rhs'.
     bind (tyOf rhs') (\<lambda>r0.
     bind (resolveIfPossibleM env r0) (\<lambda>rhsTy.
     checkUnary k (set_ty rhsTy rhs') sp)))"
| "checkExpr env (Expr (KCall lhs args) sp t) =
     bind (isTransmute lhs) (\<lambda>transmute.
       if transmute then
         bind newVar (\<lambda>a.
         bind (mapM (checkExpr env) args) (\<lambda>args'.
         ret (Expr (KCall (set_ty TyUnit lhs) args') sp (Some a))))
       else
         bind (checkExpr env lhs) (\<lambda>lhs'.
         bind (tyOf lhs') (\<lambda>l0.
         bind (resolveIfPossibleM env l0) (\<lambda>lhsTy.
         bind (mapM (checkExpr env) args) (\<lambda>args'.
         checkCallArgs env (set_ty lhsTy lhs') lhsTy args' sp)))))"
| "checkExpr env (Expr (KFieldAccess lhs fld) sp t) =
     bind (checkExpr env lhs) (\<lambda>lhs'.
     bind (tyOf lhs') (\<lambda>l0.
     bind (resolveIfPossibleM env l0) (\<lambda>lhsTy.
     bind (fieldType env lhsTy (span lhs) fld sp) (\<lambda>r.
     ret (Expr (KFieldAccess (set_ty lhsTy lhs') (Field (f_value fld) (f_span fld) (snd r)))
            sp (Some (fst r)))))))"
| "checkExpr env (Expr (KIf c th el) sp t) =
     bind (checkExpr env c) (\<lambda>cond.
     bind (checkExpr env th) (\<lambda>then'.
     bind (mapOpt (checkExpr env) el) (\<lambda>elsePart.
     bind (tyOf cond) (\<lambda>condTy.
     bind (assignM env TyBool condTy (span cond)) (\<lambda>_.
     bind (tyOf then') (\<lambda>thenTy.
     bind (case elsePart of
             Some else' \<Rightarrow>
               bind (tyOf else') (\<lambda>elseTy.
               bind (assignM env thenTy elseTy (span else')) (\<lambda>_. ret thenTy))
           | None \<Rightarrow>
               bind (assignM env TyUnit thenTy (span then')) (\<lambda>_. ret TyUnit)) (\<lambda>a.
     ret (Expr (KIf cond then' elsePart) sp (Some a)))))))))"
| "checkExpr env (Expr (KLoop body lid) sp t) =
     bind (pushLoopState lid) (\<lambda>_.
     bind (checkExpr env body) (\<lambda>body'.
     bind (tyOf body') (\<lambda>bodyTy.
     bind (assignM env TyUnit bodyTy (span body')) (\<lambda>_.
     bind popLoopState (\<lambda>hadBreak.
     ret (Expr (KLoop body' lid) sp (Some (if truthy hadBreak then TyUnit else TyNever))))))))"
| "checkExpr env (Expr (KBreak target) sp t) = checkBreak sp t"
| "checkExpr env (Expr (KStructLiteral name flds) sp t) =
     bind (mapM (\<lambda>f. bind (checkExpr env (slf_expr f)) (\<lambda>e'.
                  ret (StructLiteralField (slf_name f) e' None))) flds) (\<lambda>flds'.
     bind (typeOfValue env (id_res name) (id_span name)) (\<lambda>structTy.
       case structTy of
         TyStruct sname sflds \<Rightarrow>
           bind (mapM (assignField env (id_name name) sflds) flds') (\<lambda>flds''.
           bind (reportMissing sflds (map (\<lambda>f. id_name (slf_name f)) flds'') sp) (\<lambda>_.
           ret (Expr (KStructLiteral name flds'') sp (Some structTy))))
       | _ \<Rightarrow>
           bind (emitError (CompilerError StructLiteralOnlyForStructs sp)) (\<lambda>err.
           ret (exprError err sp))))"
| "checkExpr env (Expr (KTupleLiteral flds) sp t) =
     bind (mapM (checkExpr env) flds) (\<lambda>flds'.
     bind (mapM tyOf flds') (\<lambda>elems.
     ret (Expr (KTupleLiteral flds') sp (Some (TyTuple elems)))))"
| "checkExpr env (Expr KAsm sp t) = throw TypeError"
| "checkExpr env (Expr (KError err) sp t) = ret (Expr (KError err) sp (Some (tyErrorFrom err)))"
  by pat_completeness auto
termination
  by (relation "measure (\<lambda>(env, e). size e)")
     (auto dest: size_list_member size_slf_expr)


section \<open>Instances for the examples\<close>

text \<open>
  A global context with no dependency crates, and a package named \<open>main\<close> without items.
\<close>

definition gcx0 :: gcx where
  "gcx0 = \<lparr> finalizedCrates = [],
            findItem = (\<lambda>iid p. Item IExtern (Span 0 0) iid [] None),
            crateLoader = (\<lambda>name sp. []),
            span_merge = (\<lambda>a b. Span (sp_start a) (sp_end b)) \<rparr>"

definition pkg0 :: pkg where
  "pkg0 = \<lparr> pkg_id = 0, rootItems = [], itemsById = Map.empty, packageName = ''main'',
            fatalError = None \<rparr>"

definition cx0 :: rcx where
  "cx0 = \<lparr> cx_ast = pkg0, cx_gcx = gcx0 \<rparr>"

text \<open>
  An inference context for the examples, after the rules of the spec read at first
  order: an error type unifies silently, a variable is looked up once and bound when it
  is free, equal types unify, \<open>never\<close> as the actual type unifies with anything, and any
  other pair is a mismatch.
\<close>

definition resolve1 :: "(nat \<rightharpoonup> ty) \<Rightarrow> ty \<Rightarrow> ty" where
  "resolve1 sub a =
     (case a of TyVar v \<Rightarrow> (case sub v of Some b \<Rightarrow> b | None \<Rightarrow> a) | _ \<Rightarrow> a)"

definition is_error :: "ty \<Rightarrow> bool" where
  "is_error a = (case a of TyError err \<Rightarrow> True | _ \<Rightarrow> False)"

definition assign1 ::
  "(nat \<rightharpoonup> ty) \<Rightarrow> ty \<Rightarrow> ty \<Rightarrow> span \<Rightarrow> (nat \<rightharpoonup> ty) \<times> diag list" where
  "assign1 sub expected actual sp =
     (if is_error expected \<or> is_error actual then (sub, [])
      else let e = resolve1 sub expected; a = resolve1 sub actual
           in if e = a then (sub, [])
              else case e of
                     TyVar v \<Rightarrow> (sub(v \<mapsto> a), [])
                   | _ \<Rightarrow> (case a of
                             TyVar v \<Rightarrow> (sub(v \<mapsto> e), [])
                           | TyNever \<Rightarrow> (sub, [])
                           | _ \<Rightarrow> (sub, [CompilerError (ExpectedFound e a) sp])))"

definition env0 :: tenv where
  "env0 = \<lparr> lowerAstTy = (\<lambda>a. (TyInt, [])),
            typeOfItem = (\<lambda>iid sp. (mkTyFn [] TyUnit, [])),
            t_findItem = findItem gcx0,
            t_ast = pkg0,
            resolveIfPossible = resolve1,
            assign = assign1 \<rparr>"

definition fs0 :: fstate where
  "fs0 = \<lparr> localTys = [], loopState = [], nextVar = 0, subst = Map.empty, errors = [],
           localWrites = [] \<rparr>"

definition rs0 :: rstate where
  "rs0 = \<lparr> scopes = [], blockLocals = [], modContentsCache = Map.empty,
           r_newItemsById = Map.empty \<rparr>"

text \<open>The body of \<open>function main() = loop ( 1 );\<close>, built, with the loop id 0.\<close>

definition loop1 :: expr where
  "loop1 = Expr (KLoop (Expr (KBlock [Expr (KLiteral (LInt 1 LitInt)) (Span 24 25) None] (Some []))
                          (Span 22 23) None) 0) (Span 18 22) None"

text \<open>An occurrence of the identifier \<open>__NULL\<close>, resolved.\<close>

definition nullIdent :: "span \<Rightarrow> expr" where
  "nullIdent sp = Expr (KIdent (Ident ''__NULL'' sp (Some (ResBuiltin ''__NULL'')))) sp None"









text \<open>The package \<open>function main() = ( c; );\<close>, built: nothing is named \<open>c\<close>.\<close>

definition pkg2 :: pkg where
  "pkg2 = \<lparr> pkg_id = 0,
            rootItems = [Item (IFunction []
                                 (Expr (KBlock [Expr (KIdent (Ident ''c'' (Span 20 21) None))
                                                  (Span 20 21) None] None) (Span 18 19) None)
                                 None None) (Span 0 24) (ItemId 0 1) ''main'' None],
            itemsById = Map.empty, packageName = ''main'', fatalError = None \<rparr>"


text \<open>
  The body \<open>( let a = __NULL; let b = __NULL; (__NULL, 1, __NULL) )\<close>, resolved.
\<close>

definition nullBody :: expr where
  "nullBody =
     Expr (KBlock
        [Expr (KLet (Ident ''a'' (Span 6 7) None) None (nullIdent (Span 10 16))
                 (Some (LocalInfo ''a'' (Span 6 7) None))) (Span 2 5) None,
         Expr (KLet (Ident ''b'' (Span 22 23) None) None (nullIdent (Span 26 32))
                 (Some (LocalInfo ''b'' (Span 22 23) None))) (Span 18 21) None,
         Expr (KTupleLiteral [nullIdent (Span 35 41),
                              Expr (KLiteral (LInt 1 LitInt)) (Span 43 44) None,
                              nullIdent (Span 46 52)]) (Span 34 35) None]
        (Some [LocalInfo ''a'' (Span 6 7) None, LocalInfo ''b'' (Span 22 23) None]))
       (Span 0 1) None"


text \<open>
  A checker environment in which every item is the struct \<open>Pair\<close> with the one field \<open>x\<close>,
  and the struct literal \<open>Pair { z: 1 }\<close>, resolved.
\<close>

definition env2 :: tenv where
  "env2 = \<lparr> lowerAstTy = (\<lambda>a. (TyInt, [])),
            typeOfItem = (\<lambda>iid sp. (TyStruct ''Pair'' [(''x'', TyInt)], [])),
            t_findItem = findItem gcx0,
            t_ast = pkg0,
            resolveIfPossible = resolve1,
            assign = assign1 \<rparr>"

definition pairLiteral :: expr where
  "pairLiteral =
     Expr (KStructLiteral (Ident ''Pair'' (Span 2 6) (Some (ResItem (ItemId 0 1))))
             [StructLiteralField (Ident ''z'' (Span 9 10) None)
                (Expr (KLiteral (LInt 1 LitInt)) (Span 12 13) None) None])
       (Span 2 6) None"

text \<open>The body \<open>( (let print = print, 2).0 )\<close>, built.\<close>

definition letInTuple :: expr where
  "letInTuple =
     Expr (KBlock
        [Expr (KFieldAccess
                 (Expr (KTupleLiteral
                    [Expr (KLet (Ident ''print'' (Span 7 12) None) None
                             (Expr (KIdent (Ident ''print'' (Span 15 20) None)) (Span 15 20) None)
                             None) (Span 3 6) None,
                     Expr (KLiteral (LInt 2 LitInt)) (Span 22 23) None]) (Span 2 3) None)
                 (Field (FieldNum 0) (Span 25 26) None)) (Span 24 25) None]
        None) (Span 0 1) None"


section \<open>Notions for the statements\<close>

text \<open>
  \<open>step_ok R m\<close>: whenever the step \<open>m\<close> returns, the states before and after it are
  related by \<open>R\<close>.
\<close>

definition step_ok :: "('s \<Rightarrow> 's \<Rightarrow> bool) \<Rightarrow> ('a, 's) run \<Rightarrow> bool" where
  "step_ok R m = (\<forall>s a s'. m s = Inr (a, s') \<longrightarrow> R s s')"

text \<open>
  Across a step of the checker the counter of inference variables does not decrease
  and the stack of loop states keeps its depth.
\<close>

definition fgrows :: "fstate \<Rightarrow> fstate \<Rightarrow> bool" where
  "fgrows s s' \<longleftrightarrow> nextVar s \<le> nextVar s' \<and> length (loopState s') = length (loopState s)"

text \<open>
  The operand pairs of the binary operators with the type of the result, as the
  amended claim C4 enumerates them: \<open>None\<close> is a pair that is not admitted.
\<close>

definition binaryTable :: "binary_kind \<Rightarrow> ty \<Rightarrow> ty \<Rightarrow> ty option" where
  "binaryTable k l r =
     (if k \<in> {Lt, Gt, Eq, LtEq, GtEq, NotEq} then
        (if (l = TyInt \<and> r = TyInt) \<or> (l = TyI32 \<and> r = TyI32) \<or> (l = TyString \<and> r = TyString)
            \<or> (rawptr_inner l \<noteq> None \<and> rawptr_inner r \<noteq> None)
            \<or> (k \<in> {Eq, NotEq} \<and> l = TyBool \<and> r = TyBool)
         then Some TyBool else None)
      else if l = TyInt \<and> r = TyInt then Some TyInt
      else if l = TyI32 \<and> r = TyI32 then Some TyI32
      else if k \<in> {BitAnd, BitOr} \<and> l = TyBool \<and> r = TyBool then Some TyBool
      else None)"

text \<open>
  The ids of a tree, in the order the builder draws them: the loops of an expression with
  the children before the loop itself, the items of an item with the item before its
  contents.
\<close>

definition loopTag :: "expr \<Rightarrow> loop_id list" where
  "loopTag e = (case kind e of KLoop body lid \<Rightarrow> [lid] | _ \<Rightarrow> [])"

function loop_ids :: "expr \<Rightarrow> loop_id list" where
  "loop_ids e = concat (map loop_ids (subexprs e)) @ loopTag e"
  by pat_completeness auto
termination
  by (relation "measure size") (simp_all add: size_subexprs)

declare loop_ids.simps [simp del]

definition item_exprs :: "item \<Rightarrow> expr list" where
  "item_exprs i = (case i_kind i of
                     IFunction params body returnType fty \<Rightarrow> [body]
                   | IGlobal gty init tty \<Rightarrow> [init]
                   | _ \<Rightarrow> [])"

function item_ids :: "item \<Rightarrow> item_id list" where
  "item_ids i = i_id i # concat (map item_ids (subitems i))"
  by pat_completeness auto
termination
  by (relation "measure size") (simp_all add: size_subitems)

declare item_ids.simps [simp del]

function item_loop_ids :: "item \<Rightarrow> loop_id list" where
  "item_loop_ids i =
     concat (map loop_ids (item_exprs i)) @ concat (map item_loop_ids (subitems i))"
  by pat_completeness auto
termination
  by (relation "measure size") (simp_all add: size_subitems)

declare item_loop_ids.simps [simp del]

definition pkg_item_ids :: "pkg \<Rightarrow> item_id list" where
  "pkg_item_ids p = concat (map item_ids (rootItems p))"

definition pkg_loop_ids :: "pkg \<Rightarrow> loop_id list" where
  "pkg_loop_ids p = concat (map item_loop_ids (rootItems p))"

text \<open>
  What the assigner does to an item and to a list of items: both counters advance by
  the numbers of items and of loops, and the ids in the result are the values drawn.
\<close>

definition item_numbered :: "nat \<Rightarrow> bstate \<Rightarrow> item \<Rightarrow> item \<Rightarrow> bstate \<Rightarrow> bool" where
  "item_numbered pid s i i' s' \<longleftrightarrow>
     b_itemId s' = b_itemId s + length (item_ids i)
     \<and> b_loopId s' = b_loopId s + length (item_loop_ids i)
     \<and> item_ids i' = map (ItemId pid) [b_itemId s ..< b_itemId s + length (item_ids i)]
     \<and> item_loop_ids i' = [b_loopId s ..< b_loopId s + length (item_loop_ids i)]"

definition items_numbered :: "nat \<Rightarrow> bstate \<Rightarrow> item list \<Rightarrow> item list \<Rightarrow> bstate \<Rightarrow> bool" where
  "items_numbered pid s xs xs' s' \<longleftrightarrow>
     b_itemId s' = b_itemId s + length (concat (map item_ids xs))
     \<and> b_loopId s' = b_loopId s + length (concat (map item_loop_ids xs))
     \<and> concat (map item_ids xs')
         = map (ItemId pid) [b_itemId s ..< b_itemId s + length (concat (map item_ids xs))]
     \<and> concat (map item_loop_ids xs')
         = [b_loopId s ..< b_loopId s + length (concat (map item_loop_ids xs))]"

text \<open>\<open>runs_ok R m\<close>: from every state the step \<open>m\<close> returns, in a state related by \<open>R\<close>.\<close>

definition runs_ok :: "('s \<Rightarrow> 's \<Rightarrow> bool) \<Rightarrow> ('a, 's) run \<Rightarrow> bool" where
  "runs_ok R m = (\<forall>s. \<exists>a s'. m s = Inr (a, s') \<and> R s s')"

text \<open>A step of the validator that leaves the set of seen item ids as it is.\<close>

definition vkeeps :: "vstate \<Rightarrow> vstate \<Rightarrow> bool" where
  "vkeeps s s' \<longleftrightarrow> seenItemIds s' = seenItemIds s"

text \<open>What the validator does on items whose ids are \<open>ids\<close>, from the state \<open>s\<close>.\<close>

definition accepts :: "item_id list \<Rightarrow> ('a, vstate) run \<Rightarrow> bool" where
  "accepts ids m \<longleftrightarrow>
     (\<forall>s. if distinct ids \<and> set ids \<inter> seenItemIds s = {}
          then \<exists>a s'. m s = Inr (a, s') \<and> seenItemIds s' = seenItemIds s \<union> set ids
          else \<exists>e. m s = Inl e)"

text \<open>
  Module-path collapse.  \<open>mod_lhs cx e\<close>: the node \<open>e\<close> is an identifier or a path whose
  resolution is an item that \<open>findItem\<close> gives as a \<open>mod\<close> or an \<open>extern\<close>.  \<open>collapsed cx e\<close>:
  no field access in \<open>e\<close> has such a left-hand side; \<open>item_collapsed\<close> is the same for the
  bodies and initialisers of an item and of the items it contains.
\<close>

definition res_is_module :: "rcx \<Rightarrow> resolution \<Rightarrow> bool" where
  "res_is_module cx res =
     (case res of ResItem rid \<Rightarrow> is_module (findItem (cx_gcx cx) rid (cx_ast cx)) | _ \<Rightarrow> False)"

definition mod_lhs :: "rcx \<Rightarrow> expr \<Rightarrow> bool" where
  "mod_lhs cx e =
     (case kind e of
        KIdent v \<Rightarrow> (case id_res v of Some res \<Rightarrow> res_is_module cx res | None \<Rightarrow> False)
      | KPath segments res vsp \<Rightarrow> res_is_module cx res
      | _ \<Rightarrow> False)"






text \<open>
  A chain: an identifier, a path, or a field access whose left-hand side is a chain
  (\<open>a.b.c\<close>); \<open>nameish\<close>: an identifier or a path.
\<close>

function chain :: "expr \<Rightarrow> bool" where
  "chain e = (case kind e of
                KIdent v \<Rightarrow> True
              | KPath segments res vsp \<Rightarrow> True
              | KFieldAccess lhs fld \<Rightarrow> chain lhs
              | _ \<Rightarrow> False)"
  by pat_completeness auto

termination
  by (relation "measure size") (auto, case_tac e, auto)

declare chain.simps [simp del]





text \<open>The resolution an identifier node carries is the one the state gives its name.\<close>

definition stored_res :: "rcx \<Rightarrow> (string \<rightharpoonup> item_id) \<Rightarrow> rstate \<Rightarrow> expr \<Rightarrow> bool" where
  "stored_res cx items s e =
     (case kind e of
        KIdent v \<Rightarrow> (case id_res v of
                       Some r \<Rightarrow> resolveIdent cx items (scopes s) v = Inr r
                     | None \<Rightarrow> False)
      | _ \<Rightarrow> True)"

definition nameish :: "expr \<Rightarrow> bool" where
  "nameish e = (case kind e of KIdent v \<Rightarrow> True | KPath segments res vsp \<Rightarrow> True | _ \<Rightarrow> False)"

text \<open>
  What the conversion reads off a resolved left-hand side: its resolution, its
  segments, and the module it denotes, if it denotes one.
\<close>

definition lhs_res :: "expr \<Rightarrow> resolution option" where
  "lhs_res e = (case kind e of KIdent v \<Rightarrow> id_res v | KPath segments res vsp \<Rightarrow> Some res
                | _ \<Rightarrow> None)"

definition lhs_segments :: "expr \<Rightarrow> string list" where
  "lhs_segments e = (case kind e of KIdent v \<Rightarrow> [id_name v] | KPath segments res vsp \<Rightarrow> segments
                     | _ \<Rightarrow> [])"

definition lhs_module :: "rcx \<Rightarrow> expr \<Rightarrow> item option" where
  "lhs_module cx e =
     (case lhs_res e of
        Some (ResItem rid) \<Rightarrow>
          (let m = findItem (cx_gcx cx) rid (cx_ast cx) in if is_module m then Some m else None)
      | _ \<Rightarrow> None)"

text \<open>
  \<open>unresolvable cx items scs name\<close>: the name is no local of the stack, no item of the
  module, no loaded package and no builtin.
\<close>

definition unresolvable :: "rcx \<Rightarrow> (string \<rightharpoonup> item_id) \<Rightarrow> string list \<Rightarrow> string \<Rightarrow> bool" where
  "unresolvable cx items scs name \<longleftrightarrow>
     name \<notin> set scs \<and> items name = None
     \<and> name \<notin> fst ` set ((packageName (cx_ast cx), pkg_id (cx_ast cx)) # finalizedCrates (cx_gcx cx))
     \<and> name \<notin> set BUILTINS"

text \<open>
  The null pointers of a checked body.  \<open>null_tys e\<close> lists the type slots of the
  occurrences of \<open>__NULL\<close> in \<open>e\<close>, a node before its children and the children in the order
  of the source.  \<open>fresh_nulls ts a b\<close>: every slot of \<open>ts\<close> holds a raw pointer to an inference
  variable, and these variables increase strictly from slot to slot and lie from \<open>a\<close> up
  to but not including \<open>b\<close>.
\<close>

definition is_null :: "expr \<Rightarrow> bool" where
  "is_null e = (case kind e of KIdent v \<Rightarrow> id_res v = Some (ResBuiltin ''__NULL'') | _ \<Rightarrow> False)"

function null_tys :: "expr \<Rightarrow> ty option list" where
  "null_tys e = (if is_null e then [ty e] else []) @ concat (map null_tys (subexprs e))"
  by pat_completeness auto
termination
  by (relation "measure size") (simp_all add: size_subexprs)

declare null_tys.simps [simp del]

fun fresh_nulls :: "ty option list \<Rightarrow> nat \<Rightarrow> nat \<Rightarrow> bool" where
  "fresh_nulls [] a b = True"
| "fresh_nulls (Some (TyRawPtr (TyVar n)) # ts) a b = (a \<le> n \<and> n < b \<and> fresh_nulls ts (Suc n) b)"
| "fresh_nulls (t # ts) a b = False"

text \<open>
  Modelled from the spec: \<open>InferContext.resolveIfPossible\<close> is not among the sources.  The
  spec has "shallow chase - if \<open>ty\<close> is a variable bound in \<open>subst\<close>, replace and recurse;
  otherwise return \<open>ty\<close>": a type that is no variable is returned as it is.
\<close>

definition shallow_chase :: "tenv \<Rightarrow> bool" where
  "shallow_chase env \<longleftrightarrow>
     (\<forall>sub a. case a of TyVar v \<Rightarrow> True | _ \<Rightarrow> resolveIfPossible env sub a = a)"





section \<open>Identifier resolution and local indices\<close>

lemma scanScopes_Some:
  "scanScopes scs name n = Some i
    \<Longrightarrow> i < n \<and> scs ! i = name \<and> (\<forall>j. i < j \<and> j < n \<longrightarrow> scs ! j \<noteq> name)"
proof (induction n)
  case 0
  then show ?case by simp
next
  case (Suc n)
  show ?case
  proof (cases "scs ! n = name")
    case True
    with Suc.prems show ?thesis by auto
  next
    case False
    with Suc.prems have "scanScopes scs name n = Some i" by simp
    from Suc.IH[OF this] False show ?thesis
      by (auto simp: less_Suc_eq)
  qed
qed

lemma scanScopes_None:
  "scanScopes scs name n = None \<longleftrightarrow> (\<forall>j<n. scs ! j \<noteq> name)"
  by (induction n) (auto simp: less_Suc_eq)

text \<open>
  Claim C5.  When the name of an identifier occurs in the stack of local names, the
  resolver returns \<open>local {index = stackTop - i}\<close> for the topmost entry \<open>i\<close> that holds the
  name, and the checker's lookup of that resolution in a stack of local types of the
  same depth returns the entry \<open>i\<close> of that stack: the type pushed for the same binder.
\<close>

theorem local_index_roundtrip:
  assumes "id_name ident \<in> set scs" and "length (localTys s) = length scs"
  shows "\<exists>i<length scs. scs ! i = id_name ident
            \<and> (\<forall>j. i < j \<and> j < length scs \<longrightarrow> scs ! j \<noteq> id_name ident)
            \<and> resolveIdent cx items scs ident = Inr (ResLocal (length scs - 1 - i))
            \<and> typeOfValue env (Some (ResLocal (length scs - 1 - i))) sp s
                = Inr (localTys s ! i, s)"
proof -
  from assms(1) have "scanScopes scs (id_name ident) (length scs) \<noteq> None"
    by (auto simp: scanScopes_None in_set_conv_nth)
  then obtain i where i: "scanScopes scs (id_name ident) (length scs) = Some i" by auto
  from scanScopes_Some[OF i] have lt: "i < length scs" and at: "scs ! i = id_name ident"
    and top: "\<forall>j. i < j \<and> j < length scs \<longrightarrow> scs ! j \<noteq> id_name ident" by auto
  have res: "resolveIdent cx items scs ident = Inr (ResLocal (length scs - 1 - i))"
    by (simp add: resolveIdent_def i)
  have idx: "length scs - 1 - (length scs - 1 - i) = i" using lt by arith
  have "typeOfValue env (Some (ResLocal (length scs - 1 - i))) sp s = Inr (localTys s ! i, s)"
    using lt assms(2) by (simp add: typeOfValue_def idx)
  with lt at top res show ?thesis by blast
qed

text \<open>
  The theorem at \<open>let a; let b; let a\<close> with the types int, bool and string: the
  identifier \<open>a\<close> resolves to the local of index 0, whose type is string.
\<close>

theorem local_index_roundtrip_witness:
  "id_name (Ident ''a'' (Span 0 1) None) \<in> set [''a'', ''b'', ''a'']
   \<and> length (localTys (fs0\<lparr> localTys := [TyInt, TyBool, TyString] \<rparr>)) = length [''a'', ''b'', ''a'']
   \<and> resolveIdent cx0 Map.empty [''a'', ''b'', ''a''] (Ident ''a'' (Span 0 1) None)
       = Inr (ResLocal 0)
   \<and> typeOfValue env0 (Some (ResLocal 0)) (Span 0 1) (fs0\<lparr> localTys := [TyInt, TyBool, TyString] \<rparr>)
       = Inr (TyString, fs0\<lparr> localTys := [TyInt, TyBool, TyString] \<rparr>)"
proof -
  let ?s = "fs0\<lparr> localTys := [TyInt, TyBool, TyString] \<rparr>"
  let ?scs = "[''a'', ''b'', ''a'']"
  let ?a = "Ident ''a'' (Span 0 1) None"
  have h1: "id_name ?a \<in> set ?scs" by simp
  have h2: "length (localTys ?s) = length ?scs" by simp
  from local_index_roundtrip[OF h1 h2, of cx0 Map.empty env0 "Span 0 1"]
  obtain i where i: "i < length ?scs" "?scs ! i = id_name ?a"
      "\<forall>j. i < j \<and> j < length ?scs \<longrightarrow> ?scs ! j \<noteq> id_name ?a"
      "resolveIdent cx0 Map.empty ?scs ?a = Inr (ResLocal (length ?scs - 1 - i))"
      "typeOfValue env0 (Some (ResLocal (length ?scs - 1 - i))) (Span 0 1) ?s
         = Inr (localTys ?s ! i, ?s)"
    by blast
  from i(1) i(3) have "i = 2"
    by (auto simp: less_Suc_eq numeral_3_eq_3)
  with i(4) i(5) h1 h2 show ?thesis by simp
qed

text \<open>
  Claim C3.  The names \<open>__memory_size\<close> and \<open>__memory_grow\<close> are not in \<open>BUILTINS\<close>: an
  identifier of either name that is no local, no item and no crate is not resolved (the
  resolver throws), while \<open>typeOfBuiltinValue\<close> has a function type for both names.
\<close>

theorem memory_builtins_not_resolved:
  "resolveIdent cx0 Map.empty [] (Ident ''__memory_size'' (Span 0 13) None)
     = Inl (Thrown (CompilerError (CannotFind ''__memory_size'') (Span 0 13)))
   \<and> resolveIdent cx0 Map.empty [] (Ident ''__memory_grow'' (Span 0 13) None)
     = Inl (Thrown (CompilerError (CannotFind ''__memory_grow'') (Span 0 13)))
   \<and> typeOfBuiltinValue ''__memory_size'' (Span 0 13) fs0 = Inr (TyFn [] TyI32, fs0)
   \<and> typeOfBuiltinValue ''__memory_grow'' (Span 0 13) fs0 = Inr (TyFn [TyI32] TyI32, fs0)
   \<and> resolveIdent cx0 Map.empty [] (Ident ''__i32_load'' (Span 0 10) None)
     = Inr (ResBuiltin ''__i32_load'')"
  by (simp add: resolveIdent_def cx0_def pkg0_def gcx0_def BUILTINS_def
        typeOfBuiltinValue_def ret_def mkTyFn_def)

section \<open>The super-fold of a field access\<close>

text \<open>
  Claim C9, as the claim states it, fails: the super-fold of a field access whose field
  carries the index 0 returns a field access whose field carries the index 0.
\<close>

theorem superFoldExpr_fieldIdx_counterexample:
  "\<exists>lhs' fld' sp' t'.
     superFoldExpr ret ret ret
       (Expr (KFieldAccess (Expr (KLiteral (LInt 1 LitInt)) (Span 0 1) None)
                (Field (FieldName ''x'') (Span 2 3) (Some 0))) (Span 0 3) None) ()
       = Inr (Expr (KFieldAccess lhs' fld') sp' t', ())
     \<and> fieldIdx fld' \<noteq> None"
  by (simp add: bind_def ret_def)

text \<open>
  Claim C9, amended.  The super-fold of a field access returns the field access with
  its left-hand side folded and its field as it was: value, span and index (the spread
  \<open>{...expr}\<close> copies the \<open>field\<close> object); every other slot of the node is kept as well.
\<close>

theorem superFoldExpr_fieldAccess:
  "superFoldExpr fe fi ft (Expr (KFieldAccess lhs fld) sp t) s =
     (case fe lhs s of
        Inl a \<Rightarrow> Inl a
      | Inr (lhs', s') \<Rightarrow> Inr (Expr (KFieldAccess lhs' fld) sp t, s'))"
  by (simp add: bind_def ret_def split: sum.splits)


section \<open>Steps and what they keep\<close>

lemma step_okD: "step_ok R m \<Longrightarrow> m s = Inr (a, s') \<Longrightarrow> R s s'"
  by (auto simp: step_ok_def)

lemma step_ok_ret: "reflp R \<Longrightarrow> step_ok R (ret a)"
  by (auto simp: step_ok_def ret_def reflp_def)

lemma step_ok_throw: "step_ok R (throw e)"
  by (simp add: step_ok_def throw_def)

lemma step_ok_bind:
  "transp R \<Longrightarrow> step_ok R m \<Longrightarrow> (\<And>a. step_ok R (f a)) \<Longrightarrow> step_ok R (bind m f)"
proof -
  assume tr: "transp R" and m: "step_ok R m" and f: "\<And>a. step_ok R (f a)"
  show ?thesis
    unfolding step_ok_def
  proof (intro allI impI)
    fix s b s'
    assume run: "bind m f s = Inr (b, s')"
    then obtain a s1 where m1: "m s = Inr (a, s1)" and f1: "f a s1 = Inr (b, s')"
      by (auto simp: bind_def split: sum.splits)
    from step_okD[OF m m1] step_okD[OF f f1] tr show "R s s'"
      by (blast dest: transpD)
  qed
qed

lemma step_ok_mapM:
  "reflp R \<Longrightarrow> transp R \<Longrightarrow> (\<And>x. x \<in> set xs \<Longrightarrow> step_ok R (f x)) \<Longrightarrow> step_ok R (mapM f xs)"
  by (induction xs) (auto intro!: step_ok_ret step_ok_bind)

lemma step_ok_mapOpt:
  "reflp R \<Longrightarrow> transp R \<Longrightarrow> (\<And>a. x = Some a \<Longrightarrow> step_ok R (f a)) \<Longrightarrow> step_ok R (mapOpt f x)"
  by (cases x) (auto simp: mapOpt_def intro!: step_ok_ret step_ok_bind)

lemma fgrows_refl: "reflp fgrows"
  by (simp add: reflp_def fgrows_def)

lemma fgrows_trans: "transp fgrows"
  by (auto simp: transp_def fgrows_def)

lemmas fg_ret = step_ok_ret[OF fgrows_refl]
lemmas fg_bind = step_ok_bind[OF fgrows_trans]
lemmas fg_mapM = step_ok_mapM[OF fgrows_refl fgrows_trans]
lemmas fg_mapOpt = step_ok_mapOpt[OF fgrows_refl fgrows_trans]

lemma fg_emitError: "step_ok fgrows (emitError d)"
  by (simp add: step_ok_def emitError_def fgrows_def)

lemma fg_tyError: "step_ok fgrows (tyError d)"
  by (simp add: tyError_def fg_bind fg_emitError fg_ret)

lemma fg_newVar: "step_ok fgrows newVar"
  by (auto simp: step_ok_def newVar_def fgrows_def)

lemma fg_resolveIfPossibleM: "step_ok fgrows (resolveIfPossibleM env a)"
  by (auto simp: step_ok_def resolveIfPossibleM_def fgrows_def)

lemma fg_assignM: "step_ok fgrows (assignM env a b sp)"
  by (auto simp: step_ok_def assignM_def fgrows_def split: prod.splits)

lemma fg_lowerAstTyM: "step_ok fgrows (lowerAstTyM env a)"
  by (auto simp: step_ok_def lowerAstTyM_def fgrows_def split: prod.splits)

lemma fg_typeOfItemM: "step_ok fgrows (typeOfItemM env i sp)"
  by (auto simp: step_ok_def typeOfItemM_def fgrows_def split: prod.splits)

lemma fg_tyOf: "step_ok fgrows (tyOf e)"
  by (auto simp: tyOf_def step_ok_throw fg_ret split: option.splits)

lemma fg_typeOfBuiltinValue: "step_ok fgrows (typeOfBuiltinValue name sp)"
  unfolding typeOfBuiltinValue_def
  by (simp add: fg_ret fg_bind fg_newVar fg_tyError)

lemma fg_local: "step_ok fgrows (\<lambda>s. if P s then Inr (g s, s) else Inl e)"
  by (simp add: step_ok_def fgrows_def)

lemma fg_typeOfValue: "step_ok fgrows (typeOfValue env res sp)"
proof (cases res)
  case None
  then show ?thesis by (simp add: typeOfValue_def step_ok_throw)
next
  case (Some r)
  then show ?thesis
    by (cases r)
       (simp_all add: typeOfValue_def fg_local fg_typeOfItemM fg_typeOfBuiltinValue
          fg_tyError fg_ret)
qed


lemma fg_checkBinary: "step_ok fgrows (checkBinary env k l r sp)"
  unfolding checkBinary_def Let_def
  by (intro fg_bind fg_tyOf fg_resolveIfPossibleM)
     (simp add: fg_ret fg_bind fg_assignM fg_tyError)

lemma fg_checkUnary: "step_ok fgrows (checkUnary k r sp)"
  unfolding checkUnary_def
  by (intro fg_bind fg_tyOf) (simp add: fg_ret fg_bind fg_tyError)

lemma fg_isTransmute: "step_ok fgrows (isTransmute e)"
  by (simp add: isTransmute_def fg_ret step_ok_throw split: expr_kind.splits option.splits)

lemma fg_assignParams: "step_ok fgrows (assignParams env sp ps as)"
  by (induction env sp ps as rule: assignParams.induct)
     (simp_all add: fg_ret fg_bind fg_emitError fg_tyOf fg_assignM)

lemma fg_checkCallArgs: "step_ok fgrows (checkCallArgs env l lt as sp)"
  by (cases lt)
     (simp_all add: checkCallArgs_def fg_ret fg_bind fg_emitError fg_tyError fg_assignParams)

lemma fg_structField: "step_ok fgrows (structField lt sf fld)"
  by (simp add: structField_def fg_ret fg_bind fg_tyError
        split: field_value.splits option.splits)

lemma fg_fieldType: "step_ok fgrows (fieldType env lt lsp fld sp)"
  by (cases lt)
     (simp_all add: fieldType_def fg_ret fg_bind fg_tyError fg_structField
        fg_resolveIfPossibleM split: field_value.splits ty.splits)

lemma fg_checkLValue: "step_ok fgrows (checkLValue e)"
  by (induction e rule: checkLValue.induct)
     (simp_all add: fg_ret fg_bind fg_emitError)

lemma fg_checkAssignRes: "step_ok fgrows (checkAssignRes env res sp)"
  by (simp add: checkAssignRes_def fg_ret fg_bind fg_emitError step_ok_throw
        split: option.splits resolution.splits item_kind.splits)

lemma fg_checkAssignTarget: "step_ok fgrows (checkAssignTarget env e sp)"
  by (simp add: checkAssignTarget_def fg_ret fg_bind fg_emitError fg_checkAssignRes
        fg_checkLValue split: expr_kind.splits)

lemma fg_assignField: "step_ok fgrows (assignField env n sf f)"
  by (simp add: assignField_def fg_ret fg_bind fg_emitError fg_tyOf fg_assignM step_ok_throw
        split: option.splits)

lemma fg_reportMissing: "step_ok fgrows (reportMissing sf as sp)"
  by (simp add: reportMissing_def Let_def fg_ret fg_bind fg_emitError)

lemma fg_checkBreak: "step_ok fgrows (checkBreak sp t)"
  by (auto simp: step_ok_def checkBreak_def fgrows_def Let_def bind_def emitError_def ret_def
        split: if_splits)

lemma fg_pushLocalTy: "step_ok fgrows (pushLocalTy a)"
  by (simp add: step_ok_def pushLocalTy_def fgrows_def)

lemma fg_writeLocalTy: "step_ok fgrows (writeLocalTy l a)"
  by (cases l) (simp_all add: step_ok_def writeLocalTy_def fgrows_def throw_def)

lemma fg_localTysLength: "step_ok fgrows localTysLength"
  by (simp add: step_ok_def localTysLength_def fgrows_def)

lemma fg_truncateLocalTys: "step_ok fgrows (truncateLocalTys n)"
  by (simp add: step_ok_def truncateLocalTys_def fgrows_def)

lemmas fg_prims = fg_ret fg_emitError fg_tyError fg_newVar fg_resolveIfPossibleM fg_assignM
  fg_lowerAstTyM fg_typeOfItemM fg_tyOf fg_typeOfBuiltinValue fg_typeOfValue fg_checkBinary
  fg_checkUnary fg_isTransmute fg_assignParams fg_checkCallArgs fg_structField fg_fieldType
  fg_checkLValue fg_checkAssignRes fg_checkAssignTarget fg_assignField fg_reportMissing
  fg_checkBreak fg_pushLocalTy fg_writeLocalTy fg_localTysLength fg_truncateLocalTys
  step_ok_throw

lemma bind_Inr:
  "bind m f s = Inr (b, s') \<longleftrightarrow> (\<exists>a s1. m s = Inr (a, s1) \<and> f a s1 = Inr (b, s'))"
  by (auto simp: bind_def split: sum.splits)

lemma loop_run:
  assumes body: "step_ok fgrows (checkExpr env body)"
    and run: "checkExpr env (Expr (KLoop body lid) sp t) s = Inr (e', s')"
  shows "fgrows s s' \<and> ty e' = Some TyUnit"
proof -
  let ?s1 = "s\<lparr> loopState := loopState s @ [LoopState False lid] \<rparr>"
  from run obtain body' s2 bodyTy s3 hadBreak where
      b: "checkExpr env body ?s1 = Inr (body', s2)"
    and a: "assignM env TyUnit bodyTy (span body') s2 = Inr ((), s3)"
    and p: "popLoopState s3 = Inr (hadBreak, s')"
    and e: "e' = Expr (KLoop body' lid) sp (Some (if truthy hadBreak then TyUnit else TyNever))"
    by (auto simp: bind_Inr pushLoopState_def tyOf_def ret_def throw_def split: option.splits)
  from step_okD[OF body b] have g12: "nextVar s \<le> nextVar s2"
      "length (loopState s2) = Suc (length (loopState s))"
    by (simp_all add: fgrows_def)
  from step_okD[OF fg_assignM a] g12 have g3: "nextVar s \<le> nextVar s3"
      "length (loopState s3) = Suc (length (loopState s))"
    by (simp_all add: fgrows_def)
  from g3(2) have ne: "loopState s3 \<noteq> []" by auto
  from p ne have h: "truthy hadBreak" and s': "s' = s3\<lparr> loopState := butlast (loopState s3) \<rparr>"
    by (auto simp: popLoopState_def truthy_def)
  from g3 s' have "fgrows s s'" by (simp add: fgrows_def)
  with e h show ?thesis by simp
qed

lemma fg_checkExpr: "step_ok fgrows (checkExpr env e)"
proof (induction env e rule: checkExpr.induct)
  case (13 env body lid sp t)
  show ?case
    unfolding step_ok_def
  proof (intro allI impI)
    fix s a s'
    assume "checkExpr env (Expr (KLoop body lid) sp t) s = Inr (a, s')"
    from loop_run[OF 13 this] show "fgrows s s'" by simp
  qed
qed (simp_all only: checkExpr.simps,
     auto intro!: fg_bind fg_mapM fg_mapOpt fg_prims split: option.splits ty.splits)


section \<open>The type of a loop\<close>

text \<open>
  The checker types every loop it checks as unit: the condition of the type is the
  record popped from the stack of loop states, which is an object whatever its
  \<open>hasBreak\<close>.
\<close>

lemma loop_type_always_unit:
  "checkExpr env (Expr (KLoop body lid) sp t) s = Inr (e', s') \<Longrightarrow> ty e' = Some TyUnit"
  using loop_run[OF fg_checkExpr] by blast

text \<open>
  Claim C1.  The body of \<open>function main() = loop ( 1 );\<close> is a loop without a break; the
  checker gives it the type unit, not never (and reports the body's int against unit).
\<close>

theorem loop_without_break_is_unit:
  "\<exists>e' s'. checkExpr env0 loop1 fs0 = Inr (e', s')
      \<and> ty e' = Some TyUnit \<and> ty e' \<noteq> Some TyNever
      \<and> errors s' = [CompilerError (ExpectedFound TyUnit TyInt) (Span 22 23)]"
  by (simp add: loop1_def fs0_def env0_def bind_def ret_def pushLoopState_def popLoopState_def
        tyOf_def assignM_def assign1_def resolve1_def is_error_def localTysLength_def
        truncateLocalTys_def literalTy_def truthy_def)

section \<open>Binary operators\<close>

lemma rawptr_inner_simps [simp]:
  "rawptr_inner TyInt = None" "rawptr_inner TyI32 = None" "rawptr_inner TyString = None"
  "rawptr_inner TyBool = None" "rawptr_inner (TyRawPtr a) = Some a"
  by (simp_all add: rawptr_inner_def)

lemma assignM_run:
  "assignM env a b sp s =
     Inr ((), s\<lparr> subst := fst (assign env (subst s) a b sp),
                   errors := errors s @ snd (assign env (subst s) a b sp) \<rparr>)"
  by (simp add: assignM_def split: prod.splits)

text \<open>
  Claim C4, as the claim states it, fails: \<open>1 & 2\<close> is checked without a diagnostic and
  has the type int.
\<close>

theorem bitand_int_counterexample:
  "\<exists>e' s'. checkExpr env0
       (Expr (KBinary BitAnd (Expr (KLiteral (LInt 1 LitInt)) (Span 0 1) None)
                             (Expr (KLiteral (LInt 2 LitInt)) (Span 4 5) None)) (Span 0 5) None) fs0
       = Inr (e', s')
     \<and> ty e' = Some TyInt \<and> errors s' = []"
  by (simp add: checkBinary_def fs0_def env0_def bind_def ret_def tyOf_def literalTy_def
        resolveIfPossibleM_def resolve1_def set_ty_def COMPARISON_KINDS_def)

text \<open>
  Claim C4, amended.  For checked operands whose resolved types are \<open>L\<close> and \<open>R\<close>,
  \<open>checkBinary\<close> returns the binary node, and: a comparison is admitted for int/int,
  i32/i32, string/string and rawptr/rawptr (whose pointees are then unified), and \<open>==\<close> and
  \<open>!=\<close> also for bool/bool, each with the result bool; \<open>+\<close>, \<open>-\<close>, \<open>*\<close>, \<open>/\<close> and \<open>%\<close> are
  admitted for int/int with the result int and for i32/i32 with the result i32; \<open>&\<close> and
  \<open>|\<close> are admitted for int/int (int), i32/i32 (i32) and bool/bool (bool).  An admitted
  pair leaves the sink as it is (but for what the unification of two pointees submits);
  every other pair submits the diagnostic of invalid types and has the error type.
\<close>

theorem checkBinary_table:
  assumes l: "ty lhs0 = Some l0" and r: "ty rhs0 = Some r0"
  shows "\<exists>e' s'. checkBinary env k lhs0 rhs0 sp s = Inr (e', s')
          \<and> kind e' = KBinary k (set_ty (resolveIfPossible env (subst s) l0) lhs0)
                                (set_ty (resolveIfPossible env (subst s) r0) rhs0)
          \<and> (case binaryTable k (resolveIfPossible env (subst s) l0)
                                (resolveIfPossible env (subst s) r0) of
                Some a \<Rightarrow>
                  ty e' = Some a
                  \<and> (case (rawptr_inner (resolveIfPossible env (subst s) l0),
                           rawptr_inner (resolveIfPossible env (subst s) r0)) of
                       (Some li, Some ri) \<Rightarrow> assignM env li ri sp s = Inr ((), s')
                     | _ \<Rightarrow> s' = s)
              | None \<Rightarrow>
                  ty e' = Some (TyError ErrorEmitted)
                  \<and> s' = s\<lparr> errors := errors s @
                             [CompilerError (InvalidBinaryTypes (resolveIfPossible env (subst s) l0) k
                                (resolveIfPossible env (subst s) r0)) sp] \<rparr>)"
proof -
  have errs: "\<And>d. tyError d s = Inr (TyError ErrorEmitted, s\<lparr> errors := errors s @ [d] \<rparr>)"
    by (simp add: tyError_def emitError_def tyErrorFrom_def bind_def ret_def)
  define L where "L = resolveIfPossible env (subst s) l0"
  define R where "R = resolveIfPossible env (subst s) r0"
  have pre: "checkBinary env k lhs0 rhs0 sp s =
      (let node = (\<lambda>a. Expr (KBinary k (set_ty L lhs0) (set_ty R rhs0)) sp (Some a));
            comparison = (k \<in> set COMPARISON_KINDS)
        in if comparison \<and> L = TyInt \<and> R = TyInt then ret (node TyBool)
           else if comparison \<and> L = TyI32 \<and> R = TyI32 then ret (node TyBool)
           else if comparison \<and> L = TyString \<and> R = TyString then ret (node TyBool)
           else if comparison \<and> rawptr_inner L \<noteq> None \<and> rawptr_inner R \<noteq> None
             then bind (assignM env (the (rawptr_inner L)) (the (rawptr_inner R)) sp)
                    (\<lambda>_. ret (node TyBool))
           else if comparison \<and> k \<in> set EQUALITY_KINDS \<and> L = TyBool \<and> R = TyBool
             then ret (node TyBool)
           else if L = TyInt \<and> R = TyInt then ret (node TyInt)
           else if L = TyI32 \<and> R = TyI32 then ret (node TyI32)
           else if k \<in> set LOGICAL_KINDS \<and> L = TyBool \<and> R = TyBool
             then ret (node TyBool)
           else bind (tyError (CompilerError (InvalidBinaryTypes L k R) sp))
                  (\<lambda>a. ret (node a))) s"
    unfolding checkBinary_def L_def R_def
    by (simp only: bind_def tyOf_def l r resolveIfPossibleM_def ret_def option.case sum.case
          prod.case)
  show ?thesis
    unfolding L_def[symmetric] R_def[symmetric] pre
    by (cases k)
       (auto simp: Let_def bind_def ret_def assignM_run
          binaryTable_def COMPARISON_KINDS_def EQUALITY_KINDS_def LOGICAL_KINDS_def errs
          split: option.splits)
qed


text \<open>The theorem at \<open>1 & 2\<close>, two operands of type int.\<close>

theorem checkBinary_table_witness:
  "ty (Expr (KLiteral (LInt 1 LitInt)) (Span 0 1) (Some TyInt)) = Some TyInt
   \<and> ty (Expr (KLiteral (LInt 2 LitInt)) (Span 4 5) (Some TyInt)) = Some TyInt
   \<and> binaryTable BitAnd TyInt TyInt = Some TyInt
   \<and> (\<exists>e'. checkBinary env0 BitAnd (Expr (KLiteral (LInt 1 LitInt)) (Span 0 1) (Some TyInt))
              (Expr (KLiteral (LInt 2 LitInt)) (Span 4 5) (Some TyInt)) (Span 0 5) fs0
            = Inr (e', fs0) \<and> ty e' = Some TyInt)"
proof -
  let ?l = "Expr (KLiteral (LInt 1 LitInt)) (Span 0 1) (Some TyInt)"
  let ?r = "Expr (KLiteral (LInt 2 LitInt)) (Span 4 5) (Some TyInt)"
  have h1: "ty ?l = Some TyInt" and h2: "ty ?r = Some TyInt" by simp_all
  have res: "resolveIfPossible env0 (subst fs0) TyInt = TyInt"
    by (simp add: env0_def resolve1_def)
  have tab: "binaryTable BitAnd TyInt TyInt = Some TyInt"
    by (simp add: binaryTable_def)
  from checkBinary_table[OF h1 h2, of env0 BitAnd "Span 0 5" fs0] h1 h2 tab
  show ?thesis
    unfolding res by (auto simp: tab)
qed

section \<open>The null pointer\<close>

lemma check_null:
  "checkExpr env (nullIdent sp) s =
     Inr (Expr (KIdent (Ident ''__NULL'' sp (Some (ResBuiltin ''__NULL'')))) sp
            (Some (TyRawPtr (TyVar (nextVar s)))),
          s\<lparr> nextVar := Suc (nextVar s) \<rparr>)"
  by (simp add: nullIdent_def typeOfValue_def typeOfBuiltinValue_def bind_def ret_def newVar_def)

lemma fresh_nulls_Cons:
  "fresh_nulls (t # ts) a b
     \<longleftrightarrow> (\<exists>n. t = Some (TyRawPtr (TyVar n)) \<and> a \<le> n \<and> n < b \<and> fresh_nulls ts (Suc n) b)"
  by (cases "(t # ts, a, b)" rule: fresh_nulls.cases) auto

lemma fresh_nulls_mono:
  "fresh_nulls ts a b \<Longrightarrow> a' \<le> a \<Longrightarrow> b \<le> b' \<Longrightarrow> fresh_nulls ts a' b'"
proof (induction ts arbitrary: a a')
  case Nil
  then show ?case by simp
next
  case (Cons t ts)
  from Cons.prems(1) obtain n where
      t: "t = Some (TyRawPtr (TyVar n))" and n: "a \<le> n" "n < b"
      and r: "fresh_nulls ts (Suc n) b"
    by (auto simp: fresh_nulls_Cons)
  from Cons.IH[OF r _ Cons.prems(3), of "Suc n"] have "fresh_nulls ts (Suc n) b'" by simp
  with t n Cons.prems(2,3) show ?case by simp
qed

lemma fresh_nulls_append:
  "fresh_nulls t1 a b \<Longrightarrow> fresh_nulls t2 c d \<Longrightarrow> a \<le> c \<Longrightarrow> b \<le> c \<Longrightarrow> c \<le> d
    \<Longrightarrow> fresh_nulls (t1 @ t2) a d"
proof (induction t1 arbitrary: a)
  case Nil
  then show ?case by (auto intro: fresh_nulls_mono)
next
  case (Cons t ts)
  from Cons.prems(1) obtain n where
      t: "t = Some (TyRawPtr (TyVar n))" and n: "a \<le> n" "n < b"
      and r: "fresh_nulls ts (Suc n) b"
    by (auto simp: fresh_nulls_Cons)
  from n Cons.prems(4) have "Suc n \<le> c" by simp
  from Cons.IH[OF r Cons.prems(2) this Cons.prems(4,5)]
  have "fresh_nulls (ts @ t2) (Suc n) d" .
  with t n Cons.prems(4,5) show ?case by simp
qed

lemma null_tys_Expr:
  "null_tys (Expr k sp t) =
     (if is_null (Expr k sp t) then [t] else []) @ concat (map null_tys (subexprs (Expr k sp t)))"
  by (subst null_tys.simps) simp

lemma subexprs_set_ty [simp]: "subexprs (set_ty a e) = subexprs e"
  by (cases e rule: subexprs.cases) (simp_all add: set_ty_def)

lemma is_null_set_ty [simp]: "is_null (set_ty a e) = is_null e"
  by (simp add: is_null_def set_ty_def)

lemma shallow_rawptr:
  "shallow_chase env \<Longrightarrow> resolveIfPossible env sub (TyRawPtr a) = TyRawPtr a"
  unfolding shallow_chase_def
  by (erule allE[of _ sub], erule allE[of _ "TyRawPtr a"]) simp

lemma null_tys_set_ty:
  assumes sh: "shallow_chase env" and f: "fresh_nulls (null_tys e) a b" and t: "ty e = Some t0"
  shows "null_tys (set_ty (resolveIfPossible env sub t0) e) = null_tys e"
proof (cases "is_null e")
  case False
  then show ?thesis
    by (simp add: null_tys.simps[of e] null_tys.simps[of "set_ty (resolveIfPossible env sub t0) e"])
next
  case True
  with f t obtain n where "t0 = TyRawPtr (TyVar n)"
    by (auto simp: null_tys.simps[of e] fresh_nulls_Cons)
  with shallow_rawptr[OF sh] have "resolveIfPossible env sub t0 = t0" by simp
  moreover from t have "set_ty t0 e = e" by (cases e) (simp add: set_ty_def)
  ultimately show ?thesis by simp
qed

lemma nv: "step_ok fgrows m \<Longrightarrow> m s = Inr (a, s') \<Longrightarrow> nextVar s \<le> nextVar s'"
  by (auto simp: step_ok_def fgrows_def)

lemma tyOf_run: "tyOf e s = Inr (a, s1) \<longleftrightarrow> ty e = Some a \<and> s1 = s"
  by (auto simp: tyOf_def ret_def throw_def split: option.splits)

lemma resolveIfPossibleM_run:
  "resolveIfPossibleM env a s = Inr (b, s1) \<longleftrightarrow> b = resolveIfPossible env (subst s) a \<and> s1 = s"
  by (auto simp: resolveIfPossibleM_def)

lemma checkBinary_shape:
  assumes run: "checkBinary env k l r sp s = Inr (e', s')"
  shows "\<exists>l0 r0 a. ty l = Some l0 \<and> ty r = Some r0
           \<and> e' = Expr (KBinary k (set_ty (resolveIfPossible env (subst s) l0) l)
                          (set_ty (resolveIfPossible env (subst s) r0) r)) sp (Some a)"
proof -
  from run obtain l0 where l0: "ty l = Some l0"
    by (cases "ty l") (auto simp: checkBinary_def bind_def tyOf_def throw_def)
  from run l0 obtain r0 where r0: "ty r = Some r0"
    by (cases "ty r") (auto simp: checkBinary_def bind_def tyOf_def throw_def ret_def)
  define node where "node = (\<lambda>a. Expr (KBinary k (set_ty (resolveIfPossible env (subst s) l0) l)
                          (set_ty (resolveIfPossible env (subst s) r0) r)) sp (Some a))"
  from run have "\<exists>a. e' = node a"
    unfolding checkBinary_def node_def
    apply (simp only: bind_def tyOf_def l0 r0 option.case ret_def resolveIfPossibleM_def
             sum.case prod.case Let_def)
    apply (simp only: assignM_def tyError_def emitError_def bind_def ret_def tyErrorFrom_def
             split: if_splits prod.splits)
    apply (auto split: if_splits prod.splits)
    done
  with l0 r0 show ?thesis unfolding node_def by blast
qed

lemma checkUnary_shape:
  "checkUnary k r sp s = Inr (e', s') \<Longrightarrow> \<exists>a. e' = Expr (KUnary k r) sp (Some a)"
  by (auto simp: checkUnary_def bind_Inr ret_def split: if_splits)

lemma checkCallArgs_shape:
  "checkCallArgs env l lt as sp s = Inr (e', s') \<Longrightarrow> \<exists>a. e' = Expr (KCall l as) sp (Some a)"
  by (cases lt) (auto simp: checkCallArgs_def bind_Inr ret_def split: if_splits)

lemma checkBreak_nulls: "checkBreak sp t s = Inr (e', s') \<Longrightarrow> null_tys e' = []"
  by (auto simp: checkBreak_def bind_Inr ret_def exprError_def Let_def null_tys_Expr is_null_def
        split: if_splits)

lemma nulls_mapM:
  assumes IH: "\<And>x s1 y s2. x \<in> set xs \<Longrightarrow> checkExpr env x s1 = Inr (y, s2)
                 \<Longrightarrow> fresh_nulls (null_tys y) (nextVar s1) (nextVar s2)"
    and run: "mapM (checkExpr env) xs s = Inr (ys, s')"
  shows "fresh_nulls (concat (map null_tys ys)) (nextVar s) (nextVar s')"
  using IH run
proof (induction xs arbitrary: s ys)
  case Nil
  then show ?case by (simp add: ret_def)
next
  case (Cons x xs)
  from Cons.prems(2) obtain y s1 zs where
      y: "checkExpr env x s = Inr (y, s1)" and zs: "mapM (checkExpr env) xs s1 = Inr (zs, s')"
      and ys: "ys = y # zs"
    by (auto simp: bind_Inr ret_def)
  have f1: "fresh_nulls (null_tys y) (nextVar s) (nextVar s1)"
    using Cons.prems(1)[OF _ y] by simp
  have f2: "fresh_nulls (concat (map null_tys zs)) (nextVar s1) (nextVar s')"
    by (rule Cons.IH[OF _ zs]) (rule Cons.prems(1), simp_all)
  from nv[OF fg_checkExpr y] have a: "nextVar s \<le> nextVar s1" .
  from nv[OF fg_mapM[OF fg_checkExpr] zs] have b: "nextVar s1 \<le> nextVar s'" .
  from fresh_nulls_append[OF f1 f2 a _ b] show ?case unfolding ys by simp
qed

lemma nulls_mapM_slf:
  assumes IH: "\<And>x s1 y s2. x \<in> set fs \<Longrightarrow> checkExpr env (slf_expr x) s1 = Inr (y, s2)
                 \<Longrightarrow> fresh_nulls (null_tys y) (nextVar s1) (nextVar s2)"
    and run: "mapM (\<lambda>f. bind (checkExpr env (slf_expr f))
                           (\<lambda>x. ret (StructLiteralField (slf_name f) x None))) fs s
              = Inr (gs, s')"
  shows "fresh_nulls (concat (map null_tys (map slf_expr gs))) (nextVar s) (nextVar s')
         \<and> nextVar s \<le> nextVar s'"
  using IH run
proof (induction fs arbitrary: s gs)
  case Nil
  then show ?case by (simp add: ret_def)
next
  case (Cons x xs)
  from Cons.prems(2) obtain y s1 zs where
      y: "checkExpr env (slf_expr x) s = Inr (y, s1)"
      and zs: "mapM (\<lambda>f. bind (checkExpr env (slf_expr f))
                           (\<lambda>x. ret (StructLiteralField (slf_name f) x None))) xs s1
               = Inr (zs, s')"
      and gs: "gs = StructLiteralField (slf_name x) y None # zs"
    by (auto simp: bind_Inr ret_def)
  have f1: "fresh_nulls (null_tys y) (nextVar s) (nextVar s1)"
    using Cons.prems(1)[OF _ y] by simp
  have "fresh_nulls (concat (map null_tys (map slf_expr zs))) (nextVar s1) (nextVar s')
        \<and> nextVar s1 \<le> nextVar s'"
    by (rule Cons.IH[OF _ zs]) (rule Cons.prems(1), simp_all)
  then have f2: "fresh_nulls (concat (map null_tys (map slf_expr zs))) (nextVar s1) (nextVar s')"
    and b: "nextVar s1 \<le> nextVar s'" by simp_all
  from nv[OF fg_checkExpr y] have a: "nextVar s \<le> nextVar s1" .
  from fresh_nulls_append[OF f1 f2 a _ b] a b show ?case unfolding gs by simp
qed

lemma assignField_exprs:
  "mapM (assignField env n sf) fs s = Inr (gs, s') \<Longrightarrow> map slf_expr gs = map slf_expr fs"
proof (induction fs arbitrary: s gs)
  case Nil
  then show ?case by (simp add: ret_def)
next
  case (Cons x xs)
  from Cons.prems obtain y s1 zs where
      y: "assignField env n sf x s = Inr (y, s1)"
      and zs: "mapM (assignField env n sf) xs s1 = Inr (zs, s')" and gs: "gs = y # zs"
    by (auto simp: bind_Inr ret_def)
  from y have "slf_expr y = slf_expr x"
    by (auto simp: assignField_def bind_Inr ret_def throw_def split: option.splits)
  with Cons.IH[OF zs] show ?case unfolding gs by simp
qed

lemma isTransmute_run:
  "isTransmute lhs s = Inr (b, s1) \<Longrightarrow> s1 = s \<and> (b \<longrightarrow> null_tys (set_ty a lhs) = [])"
  by (cases lhs)
     (auto simp: isTransmute_def ret_def throw_def set_ty_def null_tys_Expr is_null_def
        split: expr_kind.splits option.splits)


lemma nulls_checkExpr:
  assumes sh: "shallow_chase env"
  shows "checkExpr env e s = Inr (e', s')
    \<Longrightarrow> fresh_nulls (null_tys e') (nextVar s) (nextVar s')"
proof (induction e arbitrary: s e' s' rule: measure_induct_rule[where f = size])
  case (less e)
  obtain k sp t where e: "e = Expr k sp t" by (cases e)
  note run = less.prems
  note IH = less.IH
  note app = fresh_nulls_append
  note mono = fresh_nulls_mono
  note st = null_tys_set_ty[OF sh]
  show ?case
  proof (cases k)
    case KEmpty
    with run show ?thesis unfolding e by (auto simp: ret_def null_tys_Expr is_null_def)
  next
    case (KLiteral v)
    with run show ?thesis unfolding e by (auto simp: ret_def null_tys_Expr is_null_def)
  next
    case (KError err)
    with run show ?thesis unfolding e by (auto simp: ret_def null_tys_Expr is_null_def)
  next
    case KAsm
    with run show ?thesis unfolding e by (simp add: throw_def)
  next
    case (KPath segs res vsp)
    with run show ?thesis
      unfolding e by (auto simp: bind_Inr ret_def null_tys_Expr is_null_def)
  next
    case (KBreak target)
    with run checkBreak_nulls[of sp t s e' s'] show ?thesis unfolding e by simp
  next
    case (KIdent v)
    from run obtain a where
        tv: "typeOfValue env (id_res v) (id_span v) s = Inr (a, s')"
        and e': "e' = Expr (KIdent v) sp (Some a)"
      unfolding e KIdent by (auto simp: bind_Inr ret_def)
    show ?thesis
    proof (cases "id_res v = Some (ResBuiltin ''__NULL'')")
      case True
      with tv have "a = TyRawPtr (TyVar (nextVar s))" "nextVar s' = Suc (nextVar s)"
        by (auto simp: typeOfValue_def typeOfBuiltinValue_def bind_Inr ret_def newVar_def)
      with True show ?thesis unfolding e' by (simp add: null_tys_Expr is_null_def)
    next
      case False
      then show ?thesis unfolding e' by (simp add: null_tys_Expr is_null_def)
    qed
  next
    case (KLet name aty rhs loc)
    from run obtain lb s1 bt s2 rhs' s3 rhsTy s4 s5 where
        m1: "mapOpt (lowerAstTyM env) aty s = Inr (lb, s1)"
        and m2: "(case lb of Some a \<Rightarrow> ret a | None \<Rightarrow> newVar) s1 = Inr (bt, s2)"
        and r: "checkExpr env rhs s2 = Inr (rhs', s3)"
        and m3: "assignM env bt rhsTy sp s3 = Inr ((), s4)"
        and m4: "pushLocalTy bt s4 = Inr ((), s5)"
        and m5: "writeLocalTy loc bt s5 = Inr ((), s')"
        and e': "e' = Expr (KLet name aty rhs' None) sp (Some TyUnit)"
      unfolding e KLet by (auto simp: bind_Inr ret_def tyOf_run)
    have "step_ok fgrows (case lb of Some a \<Rightarrow> ret a | None \<Rightarrow> newVar)"
      by (cases lb) (simp_all add: fg_ret fg_newVar)
    from nv[OF fg_mapOpt[OF fg_lowerAstTyM] m1] nv[OF this m2]
    have a: "nextVar s \<le> nextVar s2" by simp
    from nv[OF fg_assignM m3] nv[OF fg_pushLocalTy m4] nv[OF fg_writeLocalTy m5]
    have b: "nextVar s3 \<le> nextVar s'" by simp
    have "size rhs < size e" unfolding e KLet by simp
    from mono[OF IH[OF this r] a b] show ?thesis
      unfolding e' by (simp add: null_tys_Expr is_null_def)
  next
    case (KAssign lhs rhs)
    from run obtain lhs' s1 rhs' s2 lhsTy rhsTy s3 where
        l: "checkExpr env lhs s = Inr (lhs', s1)"
        and r: "checkExpr env rhs s1 = Inr (rhs', s2)"
        and m3: "assignM env lhsTy rhsTy sp s2 = Inr ((), s3)"
        and m4: "checkAssignTarget env lhs' sp s3 = Inr ((), s')"
        and e': "e' = Expr (KAssign lhs' rhs') sp (Some TyUnit)"
      unfolding e KAssign by (auto simp: bind_Inr ret_def tyOf_run)
    have sz: "size lhs < size e" "size rhs < size e" unfolding e KAssign by simp_all
    from nv[OF fg_checkExpr l] have a: "nextVar s \<le> nextVar s1" .
    from nv[OF fg_checkExpr r] have b: "nextVar s1 \<le> nextVar s2" .
    from nv[OF fg_assignM m3] nv[OF fg_checkAssignTarget m4]
    have c: "nextVar s2 \<le> nextVar s'" by simp
    from app[OF IH[OF sz(1) l] IH[OF sz(2) r] a _ b]
    have "fresh_nulls (null_tys lhs' @ null_tys rhs') (nextVar s) (nextVar s2)" by simp
    from mono[OF this _ c] show ?thesis
      unfolding e' by (simp add: null_tys_Expr is_null_def)
  next
    case (KBlock exprs locals)
    from run obtain exprs' s1 a s2 where
        m: "mapM (checkExpr env) exprs s = Inr (exprs', s1)"
        and m2: "(if length exprs' > 0 then tyOf (last exprs') else ret TyUnit) s1 = Inr (a, s2)"
        and m3: "truncateLocalTys (length (localTys s)) s2 = Inr ((), s')"
        and e': "e' = Expr (KBlock exprs' locals) sp (Some a)"
      unfolding e KBlock by (auto simp: bind_Inr ret_def localTysLength_def)
    have "step_ok fgrows (if length exprs' > 0 then tyOf (last exprs') else ret TyUnit)"
      by (simp add: fg_tyOf fg_ret)
    from nv[OF this m2] nv[OF fg_truncateLocalTys m3]
    have c: "nextVar s1 \<le> nextVar s'" by simp
    have "fresh_nulls (concat (map null_tys exprs')) (nextVar s) (nextVar s1)"
    proof (rule nulls_mapM[OF _ m])
      fix x s1 y s2
      assume "x \<in> set exprs" and r: "checkExpr env x s1 = Inr (y, s2)"
      then have "size x < size e" unfolding e KBlock by (auto dest: size_list_member)
      from IH[OF this r] show "fresh_nulls (null_tys y) (nextVar s1) (nextVar s2)" .
    qed
    from mono[OF this _ c] show ?thesis
      unfolding e' by (simp add: null_tys_Expr is_null_def)
  next
    case (KBinary bk lhs rhs)
    from run obtain lhs' s1 rhs' s2 where
        l: "checkExpr env lhs s = Inr (lhs', s1)"
        and r: "checkExpr env rhs s1 = Inr (rhs', s2)"
        and m: "checkBinary env bk lhs' rhs' sp s2 = Inr (e', s')"
      unfolding e KBinary by (auto simp: bind_Inr)
    from checkBinary_shape[OF m] obtain l0 r0 a where
        tl: "ty lhs' = Some l0" and tr: "ty rhs' = Some r0"
        and e': "e' = Expr (KBinary bk (set_ty (resolveIfPossible env (subst s2) l0) lhs')
                          (set_ty (resolveIfPossible env (subst s2) r0) rhs')) sp (Some a)"
      by blast
    have sz: "size lhs < size e" "size rhs < size e" unfolding e KBinary by simp_all
    note fl = IH[OF sz(1) l] and fr = IH[OF sz(2) r]
    from nv[OF fg_checkExpr l] have a: "nextVar s \<le> nextVar s1" .
    from nv[OF fg_checkExpr r] have b: "nextVar s1 \<le> nextVar s2" .
    from nv[OF fg_checkBinary m] have c: "nextVar s2 \<le> nextVar s'" .
    from app[OF fl fr a _ b]
    have "fresh_nulls (null_tys lhs' @ null_tys rhs') (nextVar s) (nextVar s2)" by simp
    from mono[OF this _ c] show ?thesis
      unfolding e' by (simp add: null_tys_Expr is_null_def st[OF fl tl] st[OF fr tr])
  next
    case (KUnary uk rhs)
    from run obtain rhs' s1 r0 where
        r: "checkExpr env rhs s = Inr (rhs', s1)"
        and tr: "ty rhs' = Some r0"
        and m: "checkUnary uk (set_ty (resolveIfPossible env (subst s1) r0) rhs') sp s1
                = Inr (e', s')"
      unfolding e KUnary by (auto simp: bind_Inr tyOf_run resolveIfPossibleM_run)
    from checkUnary_shape[OF m] obtain a where
        e': "e' = Expr (KUnary uk (set_ty (resolveIfPossible env (subst s1) r0) rhs')) sp (Some a)"
      by blast
    have "size rhs < size e" unfolding e KUnary by simp
    note fr = IH[OF this r]
    from nv[OF fg_checkUnary m] have c: "nextVar s1 \<le> nextVar s'" .
    from mono[OF fr _ c] show ?thesis
      unfolding e' by (simp add: null_tys_Expr is_null_def st[OF fr tr])
  next
    case (KCall lhs args)
    have szl: "size lhs < size e" unfolding e KCall by simp
    have IHa: "\<And>x s1 y s2. x \<in> set args \<Longrightarrow> checkExpr env x s1 = Inr (y, s2)
                 \<Longrightarrow> fresh_nulls (null_tys y) (nextVar s1) (nextVar s2)"
    proof -
      fix x s1 y s2
      assume "x \<in> set args" and r: "checkExpr env x s1 = Inr (y, s2)"
      then have "size x < size e" unfolding e KCall by (auto dest: size_list_member)
      from IH[OF this r] show "fresh_nulls (null_tys y) (nextVar s1) (nextVar s2)" .
    qed
    from run obtain tr s0 where
        it: "isTransmute lhs s = Inr (tr, s0)"
        and rest: "(if tr then
                      bind newVar (\<lambda>a.
                      bind (mapM (checkExpr env) args) (\<lambda>args'.
                      ret (Expr (KCall (set_ty TyUnit lhs) args') sp (Some a))))
                    else
                      bind (checkExpr env lhs) (\<lambda>lhs'.
                      bind (tyOf lhs') (\<lambda>l0.
                      bind (resolveIfPossibleM env l0) (\<lambda>lhsTy.
                      bind (mapM (checkExpr env) args) (\<lambda>args'.
                      checkCallArgs env (set_ty lhsTy lhs') lhsTy args' sp))))) s0
                   = Inr (e', s')"
      unfolding e KCall by (auto simp: bind_Inr)
    from isTransmute_run[OF it, of TyUnit] have s0: "s0 = s"
      and nl: "tr \<longrightarrow> null_tys (set_ty TyUnit lhs) = []" by simp_all
    show ?thesis
    proof (cases tr)
      case True
      from rest True obtain a s1 args' where
          n: "newVar s = Inr (a, s1)"
          and m: "mapM (checkExpr env) args s1 = Inr (args', s')"
          and e': "e' = Expr (KCall (set_ty TyUnit lhs) args') sp (Some a)"
        unfolding s0 by (auto simp: bind_Inr ret_def)
      from nv[OF fg_newVar n] have a: "nextVar s \<le> nextVar s1" .
      from mono[OF nulls_mapM[OF IHa m] a] True nl show ?thesis
        unfolding e' by (simp add: null_tys_Expr is_null_def)
    next
      case False
      from rest False obtain lhs' s1 l0 args' s2 where
          l: "checkExpr env lhs s = Inr (lhs', s1)"
          and tl: "ty lhs' = Some l0"
          and m: "mapM (checkExpr env) args s1 = Inr (args', s2)"
          and c: "checkCallArgs env (set_ty (resolveIfPossible env (subst s1) l0) lhs')
                    (resolveIfPossible env (subst s1) l0) args' sp s2 = Inr (e', s')"
        unfolding s0 by (auto simp: bind_Inr tyOf_run resolveIfPossibleM_run)
      from checkCallArgs_shape[OF c] obtain a where
          e': "e' = Expr (KCall (set_ty (resolveIfPossible env (subst s1) l0) lhs') args') sp (Some a)"
        by blast
      note fl = IH[OF szl l]
      from nv[OF fg_checkExpr l] have a: "nextVar s \<le> nextVar s1" .
      from nv[OF fg_mapM[OF fg_checkExpr] m] have b: "nextVar s1 \<le> nextVar s2" .
      from nv[OF fg_checkCallArgs c] have d: "nextVar s2 \<le> nextVar s'" .
      from app[OF fl nulls_mapM[OF IHa m] a _ b]
      have "fresh_nulls (null_tys lhs' @ concat (map null_tys args')) (nextVar s) (nextVar s2)"
        by simp
      from mono[OF this _ d] show ?thesis
        unfolding e' by (simp add: null_tys_Expr is_null_def st[OF fl tl])
    qed
  next
    case (KFieldAccess lhs fld)
    from run obtain lhs' s1 l0 r where
        l: "checkExpr env lhs s = Inr (lhs', s1)"
        and tl: "ty lhs' = Some l0"
        and m: "fieldType env (resolveIfPossible env (subst s1) l0) (span lhs) fld sp s1
                = Inr (r, s')"
        and e': "e' = Expr (KFieldAccess (set_ty (resolveIfPossible env (subst s1) l0) lhs')
                            (Field (f_value fld) (f_span fld) (snd r))) sp (Some (fst r))"
      unfolding e KFieldAccess by (auto simp: bind_Inr ret_def tyOf_run resolveIfPossibleM_run)
    have "size lhs < size e" unfolding e KFieldAccess by simp
    note fl = IH[OF this l]
    from nv[OF fg_fieldType m] have c: "nextVar s1 \<le> nextVar s'" .
    from mono[OF fl _ c] show ?thesis
      unfolding e' by (simp add: null_tys_Expr is_null_def st[OF fl tl])
  next
    case (KIf c th el)
    from run obtain cond s1 then' s2 elsePart s3 condTy s4 thenTy a where
        r1: "checkExpr env c s = Inr (cond, s1)"
        and r2: "checkExpr env th s1 = Inr (then', s2)"
        and r3: "mapOpt (checkExpr env) el s2 = Inr (elsePart, s3)"
        and m1: "assignM env TyBool condTy (span cond) s3 = Inr ((), s4)"
        and m2: "(case elsePart of
                    Some else' \<Rightarrow>
                      bind (tyOf else') (\<lambda>elseTy.
                      bind (assignM env thenTy elseTy (span else')) (\<lambda>_. ret thenTy))
                  | None \<Rightarrow>
                      bind (assignM env TyUnit thenTy (span then')) (\<lambda>_. ret TyUnit)) s4
                 = Inr (a, s')"
        and e': "e' = Expr (KIf cond then' elsePart) sp (Some a)"
      unfolding e KIf by (auto simp: bind_Inr ret_def tyOf_run)
    have sz: "size c < size e" "size th < size e" unfolding e KIf by simp_all
    from nv[OF fg_checkExpr r1] have a: "nextVar s \<le> nextVar s1" .
    from nv[OF fg_checkExpr r2] have b: "nextVar s1 \<le> nextVar s2" .
    from nv[OF fg_mapOpt[OF fg_checkExpr] r3] have c: "nextVar s2 \<le> nextVar s3" .
    have "step_ok fgrows (case elsePart of
                    Some else' \<Rightarrow>
                      bind (tyOf else') (\<lambda>elseTy.
                      bind (assignM env thenTy elseTy (span else')) (\<lambda>_. ret thenTy))
                  | None \<Rightarrow>
                      bind (assignM env TyUnit thenTy (span then')) (\<lambda>_. ret TyUnit))"
      by (cases elsePart) (simp_all add: fg_bind fg_tyOf fg_assignM fg_ret)
    from nv[OF fg_assignM m1] nv[OF this m2] have d: "nextVar s3 \<le> nextVar s'" by simp
    from app[OF IH[OF sz(1) r1] IH[OF sz(2) r2] a _ b]
    have f12: "fresh_nulls (null_tys cond @ null_tys then') (nextVar s) (nextVar s2)" by simp
    have f3: "fresh_nulls (case elsePart of None \<Rightarrow> [] | Some x \<Rightarrow> null_tys x)
                (nextVar s2) (nextVar s3)"
    proof (cases el)
      case None
      with r3 show ?thesis by (simp add: mapOpt_def ret_def)
    next
      case (Some x)
      with r3 obtain x' where x: "checkExpr env x s2 = Inr (x', s3)" and ep: "elsePart = Some x'"
        by (auto simp: mapOpt_def bind_Inr ret_def)
      have "size x < size e" unfolding e KIf Some by simp
      from IH[OF this x] show ?thesis unfolding ep by simp
    qed
    from a b have ab: "nextVar s \<le> nextVar s2" by simp
    from app[OF f12 f3 ab _ c]
    have "fresh_nulls ((null_tys cond @ null_tys then')
             @ (case elsePart of None \<Rightarrow> [] | Some x \<Rightarrow> null_tys x)) (nextVar s) (nextVar s3)"
      by simp
    from mono[OF this _ d] show ?thesis
      unfolding e' by (cases elsePart) (simp_all add: null_tys_Expr is_null_def)
  next
    case (KLoop body lid)
    from run obtain body' s1 bodyTy s2 where
        r: "checkExpr env body (s\<lparr> loopState := loopState s @ [LoopState False lid] \<rparr>)
              = Inr (body', s1)"
        and m: "assignM env TyUnit bodyTy (span body') s1 = Inr ((), s2)"
        and s': "nextVar s' = nextVar s2"
        and e': "\<exists>a. e' = Expr (KLoop body' lid) sp (Some a)"
      unfolding e KLoop
      by (auto simp: bind_Inr ret_def tyOf_run pushLoopState_def popLoopState_def)
    have "size body < size e" unfolding e KLoop by simp
    from IH[OF this r]
    have f: "fresh_nulls (null_tys body') (nextVar s) (nextVar s1)" by simp
    from nv[OF fg_assignM m] s' have c: "nextVar s1 \<le> nextVar s'" by simp
    from mono[OF f _ c] e' show ?thesis
      by (auto simp: null_tys_Expr is_null_def)
  next
    case (KStructLiteral name flds)
    from run obtain flds' s1 structTy s2 where
        m: "mapM (\<lambda>f. bind (checkExpr env (slf_expr f))
                           (\<lambda>x. ret (StructLiteralField (slf_name f) x None))) flds s
              = Inr (flds', s1)"
        and tv: "typeOfValue env (id_res name) (id_span name) s1 = Inr (structTy, s2)"
        and rest: "(case structTy of
                      TyStruct sname sflds \<Rightarrow>
                        bind (mapM (assignField env (id_name name) sflds) flds') (\<lambda>flds''.
                        bind (reportMissing sflds (map (\<lambda>f. id_name (slf_name f)) flds'') sp) (\<lambda>_.
                        ret (Expr (KStructLiteral name flds'') sp (Some structTy))))
                    | _ \<Rightarrow>
                        bind (emitError (CompilerError StructLiteralOnlyForStructs sp)) (\<lambda>err.
                        ret (exprError err sp))) s2 = Inr (e', s')"
      unfolding e KStructLiteral by (auto simp: bind_Inr)
    have fm: "fresh_nulls (concat (map null_tys (map slf_expr flds'))) (nextVar s) (nextVar s1)"
      and a: "nextVar s \<le> nextVar s1"
    proof -
      have "fresh_nulls (concat (map null_tys (map slf_expr flds'))) (nextVar s) (nextVar s1)
            \<and> nextVar s \<le> nextVar s1"
      proof (rule nulls_mapM_slf[OF _ m])
        fix x s1 y s2
        assume "x \<in> set flds" and r: "checkExpr env (slf_expr x) s1 = Inr (y, s2)"
        then have "size (slf_expr x) < size e"
          unfolding e KStructLiteral by (auto dest: size_slf_expr)
        from IH[OF this r] show "fresh_nulls (null_tys y) (nextVar s1) (nextVar s2)" .
      qed
      then show "fresh_nulls (concat (map null_tys (map slf_expr flds'))) (nextVar s) (nextVar s1)"
        and "nextVar s \<le> nextVar s1" by simp_all
    qed
    from nv[OF fg_typeOfValue tv] have b: "nextVar s1 \<le> nextVar s2" .
    show ?thesis
    proof (cases "\<exists>sname sflds. structTy = TyStruct sname sflds")
      case True
      then obtain sname sflds where sty: "structTy = TyStruct sname sflds" by blast
      from rest obtain flds'' s3 where
          af: "mapM (assignField env (id_name name) sflds) flds' s2 = Inr (flds'', s3)"
          and rm: "reportMissing sflds (map (\<lambda>f. id_name (slf_name f)) flds'') sp s3
                   = Inr ((), s')"
          and e': "e' = Expr (KStructLiteral name flds'') sp (Some structTy)"
        unfolding sty by (auto simp: bind_Inr ret_def)
      from nv[OF fg_mapM[OF fg_assignField] af] nv[OF fg_reportMissing rm] b
      have c: "nextVar s1 \<le> nextVar s'" by simp
      from mono[OF fm _ c] assignField_exprs[OF af] show ?thesis
        unfolding e' by (simp add: null_tys_Expr is_null_def)
    next
      case False
      with rest have "\<exists>err. e' = exprError err sp"
        by (cases structTy) (auto simp: bind_Inr ret_def)
      then show ?thesis
        by (auto simp: exprError_def null_tys_Expr is_null_def)
    qed
  next
    case (KTupleLiteral flds)
    from run obtain flds' s1 elems where
        m: "mapM (checkExpr env) flds s = Inr (flds', s1)"
        and m2: "mapM tyOf flds' s1 = Inr (elems, s')"
        and e': "e' = Expr (KTupleLiteral flds') sp (Some (TyTuple elems))"
      unfolding e KTupleLiteral by (auto simp: bind_Inr ret_def)
    from nv[OF fg_mapM[OF fg_tyOf] m2] have c: "nextVar s1 \<le> nextVar s'" .
    have "fresh_nulls (concat (map null_tys flds')) (nextVar s) (nextVar s1)"
    proof (rule nulls_mapM[OF _ m])
      fix x s1 y s2
      assume "x \<in> set flds" and r: "checkExpr env x s1 = Inr (y, s2)"
      then have "size x < size e" unfolding e KTupleLiteral by (auto dest: size_list_member)
      from IH[OF this r] show "fresh_nulls (null_tys y) (nextVar s1) (nextVar s2)" .
    qed
    from mono[OF this _ c] show ?thesis
      unfolding e' by (simp add: null_tys_Expr is_null_def)
  qed
qed

lemma shallow_chase_env0: "shallow_chase env0"
  by (auto simp: shallow_chase_def env0_def resolve1_def split: ty.splits)

lemma nullBody_checked:
  "\<exists>body' s'. checkExpr env0 nullBody fs0 = Inr (body', s')
     \<and> null_tys body' = [Some (TyRawPtr (TyVar 1)), Some (TyRawPtr (TyVar 3)),
                          Some (TyRawPtr (TyVar 4)), Some (TyRawPtr (TyVar 5))]
     \<and> nextVar s' = 6"
  by (simp add: nullBody_def nullIdent_def fs0_def env0_def bind_def ret_def mapOpt_def
        newVar_def typeOfValue_def typeOfBuiltinValue_def tyOf_def assignM_def assign1_def
        is_error_def resolve1_def pushLocalTy_def writeLocalTy_def localTysLength_def
        truncateLocalTys_def literalTy_def null_tys_Expr is_null_def Let_def)

text \<open>
  Claim C10.  Let \<open>resolveIfPossible\<close> return a type that is no variable as it is.  When the
  checker returns for an expression, then in the checked expression every occurrence
  of \<open>__NULL\<close> has the type of a raw pointer to an inference variable; these variables are
  pairwise distinct (they increase in the order of the source) and were all created
  during this check: none is below the counter at the start, all are below the counter
  at the end.  The check of one occurrence takes the variable the counter holds, advances
  the counter and leaves the rest of the state, the substitution included, as it was:
  nothing unifies the pointees of two occurrences.
\<close>

theorem null_pointees_fresh:
  assumes sh: "shallow_chase env"
    and run: "checkExpr env body s = Inr (body', s')"
  shows "fresh_nulls (null_tys body') (nextVar s) (nextVar s')
       \<and> (\<forall>sp s0. checkExpr env (nullIdent sp) s0
              = Inr (set_ty (TyRawPtr (TyVar (nextVar s0))) (nullIdent sp),
                     s0\<lparr> nextVar := Suc (nextVar s0) \<rparr>))"
proof
  show "fresh_nulls (null_tys body') (nextVar s) (nextVar s')"
    by (rule nulls_checkExpr[OF sh run])
next
  show "\<forall>sp s0. checkExpr env (nullIdent sp) s0
              = Inr (set_ty (TyRawPtr (TyVar (nextVar s0))) (nullIdent sp),
                     s0\<lparr> nextVar := Suc (nextVar s0) \<rparr>)"
    by (simp add: check_null) (simp add: set_ty_def nullIdent_def)
qed

text \<open>
  The theorem at \<open>( let a = __NULL; let b = __NULL; (__NULL, 1, __NULL) )\<close>: the bindings
  take the variables 0 and 2, the four pointees are the variables 1, 3, 4 and 5.
\<close>

theorem null_pointees_fresh_witness:
  "shallow_chase env0
   \<and> (\<exists>body' s'. checkExpr env0 nullBody fs0 = Inr (body', s')
         \<and> null_tys body' = [Some (TyRawPtr (TyVar 1)), Some (TyRawPtr (TyVar 3)),
                              Some (TyRawPtr (TyVar 4)), Some (TyRawPtr (TyVar 5))]
         \<and> nextVar s' = 6
         \<and> fresh_nulls (null_tys body') 0 6)"
proof -
  from nullBody_checked obtain body' s' where
      r: "checkExpr env0 nullBody fs0 = Inr (body', s')"
      and n: "null_tys body' = [Some (TyRawPtr (TyVar 1)), Some (TyRawPtr (TyVar 3)),
                                Some (TyRawPtr (TyVar 4)), Some (TyRawPtr (TyVar 5))]"
      and v: "nextVar s' = 6"
    by (elim exE conjE)
  from null_pointees_fresh[OF shallow_chase_env0 r]
  have "fresh_nulls (null_tys body') (nextVar fs0) (nextVar s')" by (rule conjunct1)
  with v have f: "fresh_nulls (null_tys body') 0 6" by (simp add: fs0_def)
  from r n v f have "\<exists>body' s'. checkExpr env0 nullBody fs0 = Inr (body', s')
         \<and> null_tys body' = [Some (TyRawPtr (TyVar 1)), Some (TyRawPtr (TyVar 3)),
                              Some (TyRawPtr (TyVar 4)), Some (TyRawPtr (TyVar 5))]
         \<and> nextVar s' = 6
         \<and> fresh_nulls (null_tys body') 0 6"
    by (intro exI conjI)
  with shallow_chase_env0 show ?thesis by (rule conjI)
qed


section \<open>The resolver's let\<close>

text \<open>
  One visit of \<open>let x = E\<close>: the result holds, as its right-hand side, the result of
  resolving \<open>E\<close> in the state in which the \<open>let\<close> is met, where this visit has not pushed
  \<open>x\<close>.  After the right-hand side (and the type), the name is pushed on the stack of
  names and a new local is appended to the list of the innermost open block.
\<close>

lemma let_rhs_before_binding:
  assumes rhs: "resolver_expr cx items rhs s = Inr (rhs', s1)"
    and aty: "mapOpt (resolver_type cx items) aty s1 = Inr (aty', s2)"
    and block: "blockLocals s2 \<noteq> []"
  shows "resolver_expr cx items (Expr (KLet name aty rhs loc) sp t) s =
           Inr (Expr (KLet name aty' rhs' (Some (LocalInfo (id_name name) (id_span name) None))) sp t,
                s2\<lparr> scopes := scopes s2 @ [id_name name],
                    blockLocals := butlast (blockLocals s2)
                      @ [last (blockLocals s2) @ [LocalInfo (id_name name) (id_span name) None]] \<rparr>)"
  using rhs aty block
  by (simp add: bind_def ret_def declareLocal_def Let_def)

text \<open>
  Claim C6.  The resolver on \<open>( (let print = print, 2).0 )\<close>.  The left-hand side of the
  field access is no module, so it is resolved twice: once by the \<open>fieldAccess\<close> case,
  whose result is dropped, and once more by the super-fold.  The first visit of the
  \<open>let\<close> pushes \<open>print\<close>, and nothing pops it before the second visit: in the result the
  right-hand side \<open>print\<close> is the local of index 0, the binding of this very \<open>let\<close>, not the
  builtin, and the block holds two locals for the one \<open>let\<close>.
\<close>

theorem let_rhs_resolves_to_own_binder:
  "resolver_expr cx0 Map.empty letInTuple rs0
     = Inr (Expr (KBlock
              [Expr (KFieldAccess
                       (Expr (KTupleLiteral
                          [Expr (KLet (Ident ''print'' (Span 7 12) None) None
                                   (Expr (KIdent (Ident ''print'' (Span 15 20) (Some (ResLocal 0))))
                                      (Span 15 20) None)
                                   (Some (LocalInfo ''print'' (Span 7 12) None))) (Span 3 6) None,
                           Expr (KLiteral (LInt 2 LitInt)) (Span 22 23) None]) (Span 2 3) None)
                       (Field (FieldNum 0) (Span 25 26) None)) (Span 24 25) None]
              (Some [LocalInfo ''print'' (Span 7 12) None, LocalInfo ''print'' (Span 7 12) None]))
             (Span 0 1) None, rs0)"
  by (simp add: letInTuple_def rs0_def cx0_def pkg0_def gcx0_def bind_def ret_def mapOpt_def
        enterBlock_def leaveBlock_def declareLocal_def modulePath_def lhsResolution_def
        resolver_ident_def resolveIdentM_def resolveIdent_def BUILTINS_def Let_def)


section \<open>The ids the builder assigns, and the validator\<close>

lemma bind_run: "m s = Inr (a, s1) \<Longrightarrow> bind m f s = f a s1"
  by (simp add: bind_def)

lemma mapM_Cons_run:
  "f x s = Inr (y, s1) \<Longrightarrow> mapM f xs s1 = Inr (ys, s2) \<Longrightarrow> mapM f (x # xs) s = Inr (y # ys, s2)"
  by (simp add: bind_def ret_def)

lemma mapM_slf:
  "mapM fe (map slf_expr flds) s = Inr (es', s')
    \<Longrightarrow> \<exists>flds'. mapM (\<lambda>f. bind (fe (slf_expr f)) (\<lambda>e'. ret (StructLiteralField (slf_name f) e' None)))
                     flds s = Inr (flds', s')
               \<and> map slf_expr flds' = es'"
proof (induction flds arbitrary: s es')
  case Nil
  then show ?case by (simp add: ret_def)
next
  case (Cons f flds)
  from Cons.prems obtain y s1 ys where
      y: "fe (slf_expr f) s = Inr (y, s1)"
    and ys: "mapM fe (map slf_expr flds) s1 = Inr (ys, s')" and es': "es' = y # ys"
    by (auto simp: bind_Inr ret_def)
  from Cons.IH[OF ys] obtain flds' where
      "mapM (\<lambda>f. bind (fe (slf_expr f)) (\<lambda>e'. ret (StructLiteralField (slf_name f) e' None)))
         flds s1 = Inr (flds', s')" "map slf_expr flds' = ys"
    by blast
  with y es' show ?case
    by (simp add: bind_def ret_def)
qed

lemma mapOpt_ret [simp]: "mapOpt ret x = ret x"
  by (cases x) (simp_all add: mapOpt_def bind_def ret_def)

text \<open>With an identity on identifiers and types, a super-fold runs the folder over the children.\<close>

lemma superFoldExpr_children:
  assumes "mapM fe (subexprs e) s = Inr (es', s')"
  shows "\<exists>e'. superFoldExpr fe ret ret e s = Inr (e', s')
              \<and> subexprs e' = es' \<and> loopTag e' = loopTag e"
proof -
  obtain k sp t where e: "e = Expr k sp t" by (cases e)
  show ?thesis
  proof (cases k)
    case (KStructLiteral name flds)
    with assms e have "mapM fe (map slf_expr flds) s = Inr (es', s')" by simp
    from mapM_slf[OF this] show ?thesis
      unfolding e KStructLiteral
      by (auto simp: bind_def ret_def loopTag_def)
  next
    case (KIf c th el)
    with assms e show ?thesis
      by (cases el)
         (auto simp: bind_Inr ret_def loopTag_def mapOpt_def bind_def split: sum.splits)
  qed (use assms e in \<open>auto simp: bind_Inr ret_def loopTag_def bind_def split: sum.splits\<close>)
qed

lemma loop_ids_with_loopId:
  "loopTag e \<noteq> [] \<Longrightarrow> loop_ids (with_loopId n e) = concat (map loop_ids (subexprs e)) @ [n]"
  by (cases e; cases "kind e")
     (auto simp: loop_ids.simps[of "with_loopId n e"] loop_ids.simps[of "Expr _ _ _"]
        with_loopId_def loopTag_def)

lemma upt_append_add: "[a ..< a + m] @ [a + m ..< a + (m + n)] = [a ..< a + (m + n)]"
  using upt_add_eq_append[of a "a + m" n] by (simp add: add.assoc)

text \<open>The assigner on a list of expressions: the loop ids drawn are consecutive.\<close>

lemma assigner_list:
  assumes "\<And>x s. x \<in> set xs \<Longrightarrow>
      \<exists>x'. f x s = Inr (x', s\<lparr> b_loopId := b_loopId s + length (loop_ids x) \<rparr>)
            \<and> loop_ids x' = [b_loopId s ..< b_loopId s + length (loop_ids x)]"
  shows "\<exists>xs'. mapM f xs s
            = Inr (xs', s\<lparr> b_loopId := b_loopId s + length (concat (map loop_ids xs)) \<rparr>)
          \<and> concat (map loop_ids xs')
            = [b_loopId s ..< b_loopId s + length (concat (map loop_ids xs))]"
  using assms
proof (induction xs arbitrary: s)
  case Nil
  then show ?case by (simp add: ret_def)
next
  case (Cons x xs)
  let ?s1 = "s\<lparr> b_loopId := b_loopId s + length (loop_ids x) \<rparr>"
  from Cons.prems[of x s] obtain x' where
      x: "f x s = Inr (x', ?s1)"
    and xl: "loop_ids x' = [b_loopId s ..< b_loopId s + length (loop_ids x)]"
    by auto
  from Cons.IH[of ?s1] Cons.prems obtain xs' where
      xs: "mapM f xs ?s1
            = Inr (xs', ?s1\<lparr> b_loopId := b_loopId ?s1 + length (concat (map loop_ids xs)) \<rparr>)"
    and xsl: "concat (map loop_ids xs')
            = [b_loopId ?s1 ..< b_loopId ?s1 + length (concat (map loop_ids xs))]"
    by (metis list.set_intros(2))
  have "mapM f (x # xs) s
      = Inr (x' # xs', s\<lparr> b_loopId := b_loopId s + length (concat (map loop_ids (x # xs))) \<rparr>)"
    using x xs by (simp add: bind_def ret_def add.assoc)
  moreover have "concat (map loop_ids (x' # xs'))
      = [b_loopId s ..< b_loopId s + length (concat (map loop_ids (x # xs)))]"
    using xl xsl by (simp add: add.assoc upt_append_add)
  ultimately show ?case by blast
qed

lemma assigner_expr_ids:
  "\<exists>e'. assigner_expr e s = Inr (e', s\<lparr> b_loopId := b_loopId s + length (loop_ids e) \<rparr>)
        \<and> loop_ids e' = [b_loopId s ..< b_loopId s + length (loop_ids e)]"
proof (induction e arbitrary: s rule: measure_induct_rule[where f = size])
  case (less e)
  let ?k = "length (concat (map loop_ids (subexprs e)))"
  let ?s1 = "s\<lparr> b_loopId := b_loopId s + ?k \<rparr>"
  have "\<exists>es'. mapM assigner_expr (subexprs e) s = Inr (es', ?s1)
          \<and> concat (map loop_ids es') = [b_loopId s ..< b_loopId s + ?k]"
    by (rule assigner_list) (use less.IH size_subexprs in blast)
  then obtain es' where
      es: "mapM assigner_expr (subexprs e) s = Inr (es', ?s1)"
    and esl: "concat (map loop_ids es') = [b_loopId s ..< b_loopId s + ?k]"
    by blast
  from superFoldExpr_children[OF es] obtain e1 where
      e1: "superFoldExpr assigner_expr ret ret e s = Inr (e1, ?s1)"
    and sub: "subexprs e1 = es'" and tag: "loopTag e1 = loopTag e"
    by blast
  obtain k sp t where e: "e = Expr k sp t" by (cases e)
  show ?case
  proof (cases "loopTag e = []")
    case True
    then have "assigner_expr e = superFoldExpr assigner_expr ret ret e"
      unfolding e by (cases k) (simp_all add: loopTag_def)
    moreover have "length (loop_ids e) = ?k"
      using True by (simp add: loop_ids.simps[of e])
    moreover have "loop_ids e1 = [b_loopId s ..< b_loopId s + ?k]"
      using True tag sub esl by (simp add: loop_ids.simps[of e1])
    ultimately show ?thesis using e1 by simp
  next
    case False
    then obtain body lid where k: "k = KLoop body lid"
      unfolding e by (cases k) (simp_all add: loopTag_def)
    have len: "length (loop_ids e) = Suc ?k"
      unfolding e k by (simp add: loop_ids.simps[of "Expr (KLoop body lid) sp t"] loopTag_def)
    have run: "assigner_expr e s
        = Inr (with_loopId (b_loopId ?s1) e1, ?s1\<lparr> b_loopId := Suc (b_loopId ?s1) \<rparr>)"
      using e1 unfolding e k
      by (simp add: bind_def ret_def nextLoopId_def ids_next_def)
    have "loop_ids (with_loopId (b_loopId ?s1) e1) = [b_loopId s ..< b_loopId s + Suc ?k]"
      using False tag sub esl by (simp add: loop_ids_with_loopId)
    with run len show ?thesis by simp
  qed
qed

lemma mapM_ret [simp]: "mapM ret xs = ret xs"
  by (induction xs) (simp_all add: bind_def ret_def)

lemma foldArg_ret [simp]: "foldArg ret = ret"
  by (rule ext, case_tac x) (simp add: foldArg_def bind_def ret_def)

lemma foldFieldDef_ret [simp]: "foldFieldDef ret = ret"
  by (rule ext, case_tac x) (simp add: foldFieldDef_def bind_def ret_def)

lemma assigner_items:
  assumes "\<And>x s. x \<in> set xs \<Longrightarrow> \<exists>x' s'. f x s = Inr (x', s') \<and> item_numbered pid s x x' s'"
  shows "\<exists>xs' s'. mapM f xs s = Inr (xs', s') \<and> items_numbered pid s xs xs' s'"
  using assms
proof (induction xs arbitrary: s)
  case Nil
  then show ?case by (simp add: ret_def items_numbered_def)
next
  case (Cons x xs)
  from Cons.prems[of x s] obtain x' s1 where
      x: "f x s = Inr (x', s1)" and xn: "item_numbered pid s x x' s1"
    by auto
  from Cons.IH[of s1] Cons.prems obtain xs' s2 where
      xs: "mapM f xs s1 = Inr (xs', s2)" and xsn: "items_numbered pid s1 xs xs' s2"
    by (metis list.set_intros(2))
  have "mapM f (x # xs) s = Inr (x' # xs', s2)"
    using x xs by (simp add: bind_def ret_def)
  moreover have "items_numbered pid s (x # xs) (x' # xs') s2"
    using xn xsn
    by (simp add: item_numbered_def items_numbered_def add.assoc upt_append_add
          map_append[symmetric] del: map_append)
  ultimately show ?case by blast
qed

lemma folder_item_numbered:
  assumes "\<exists>x' s'. itemInner x s = Inr (x', s') \<and> item_numbered pid s x x' s'"
  shows "\<exists>x' s'. folder_item b_put itemInner x s = Inr (x', s') \<and> item_numbered pid s x x' s'"
  using assms
  by (auto simp: folder_item_def bind_def b_put_def item_numbered_def)

lemma subitems_kind: "subitems i = (case i_kind i of IMod cs \<Rightarrow> cs | _ \<Rightarrow> [])"
  by (cases i rule: subitems.cases) simp_all

lemma item_ids_with_id:
  "item_ids (with_id iid i) = iid # concat (map item_ids (subitems i))"
  unfolding with_id_def by (subst item_ids.simps) (simp add: subitems_kind)

lemma item_loop_ids_with_id:
  "item_loop_ids (with_id iid i) = item_loop_ids i"
proof -
  have "item_loop_ids (with_id iid i)
      = concat (map loop_ids (item_exprs (with_id iid i)))
        @ concat (map item_loop_ids (subitems (with_id iid i)))"
    by (rule item_loop_ids.simps)
  also have "\<dots> = concat (map loop_ids (item_exprs i)) @ concat (map item_loop_ids (subitems i))"
    by (simp add: with_id_def item_exprs_def subitems_kind)
  also have "\<dots> = item_loop_ids i"
    by (rule item_loop_ids.simps[symmetric])
  finally show ?thesis .
qed

lemma assigner_item_ids:
  "\<exists>i' s'. assigner_itemInner pid i s = Inr (i', s') \<and> item_numbered pid s i i' s'"
proof (induction i arbitrary: s rule: measure_induct_rule[where f = size])
  case (less i)
  let ?n = "b_itemId s"
  let ?s1 = "s\<lparr> b_itemId := Suc ?n \<rparr>"
  let ?fit = "folder_item b_put (assigner_itemInner pid)"
  have sub: "\<And>xs s. set xs \<subseteq> set (subitems i)
      \<Longrightarrow> \<exists>xs' s'. mapM ?fit xs s = Inr (xs', s') \<and> items_numbered pid s xs xs' s'"
  proof (rule assigner_items, rule folder_item_numbered)
    fix xs x and s :: bstate
    assume "set xs \<subseteq> set (subitems i)" "x \<in> set xs"
    then have "size x < size i" by (auto dest: size_subitems)
    from less.IH[OF this]
    show "\<exists>x' s'. assigner_itemInner pid x s = Inr (x', s') \<and> item_numbered pid s x x' s'" .
  qed
  obtain k sp iid name dp where i: "i = Item k sp iid name dp" by (cases i)
  have fold: "\<exists>i1 s'. superFoldItem ?fit assigner_expr ret i ?s1 = Inr (i1, s')
        \<and> b_itemId s' = Suc ?n + length (concat (map item_ids (subitems i)))
        \<and> b_loopId s' = b_loopId s + length (item_loop_ids i)
        \<and> concat (map item_ids (subitems i1))
             = map (ItemId pid) [Suc ?n ..< Suc ?n + length (concat (map item_ids (subitems i)))]
        \<and> item_loop_ids i1 = [b_loopId s ..< b_loopId s + length (item_loop_ids i)]"
  proof (cases k)
    case (IFunction params body returnType fty)
    from assigner_expr_ids[of body ?s1] obtain body' where
        "assigner_expr body ?s1 = Inr (body', ?s1\<lparr> b_loopId := b_loopId ?s1 + length (loop_ids body) \<rparr>)"
        "loop_ids body' = [b_loopId ?s1 ..< b_loopId ?s1 + length (loop_ids body)]"
      by blast
    then show ?thesis
      unfolding i IFunction
      by (simp add: bind_def ret_def item_loop_ids.simps[of "Item _ _ _ _ _"] item_exprs_def)
  next
    case (IType gp d tty)
    then show ?thesis
      unfolding i
      by (cases d)
         (simp_all add: bind_def ret_def item_loop_ids.simps[of "Item _ _ _ _ _"] item_exprs_def)
  next
    case (IImport m f params returnType fty)
    then show ?thesis
      unfolding i
      by (simp add: bind_def ret_def item_loop_ids.simps[of "Item _ _ _ _ _"] item_exprs_def)
  next
    case (IMod contents)
    from sub[of contents ?s1] obtain cs' s' where
        "mapM ?fit contents ?s1 = Inr (cs', s')" "items_numbered pid ?s1 contents cs' s'"
      unfolding i IMod by auto
    then show ?thesis
      unfolding i IMod
      by (simp add: bind_def ret_def item_loop_ids.simps[of "Item _ _ _ _ _"] item_exprs_def
            items_numbered_def)
  next
    case IExtern
    then show ?thesis
      unfolding i
      by (simp add: bind_def ret_def item_loop_ids.simps[of "Item _ _ _ _ _"] item_exprs_def)
  next
    case (IGlobal gty init tty)
    from assigner_expr_ids[of init ?s1] obtain init' where
        "assigner_expr init ?s1 = Inr (init', ?s1\<lparr> b_loopId := b_loopId ?s1 + length (loop_ids init) \<rparr>)"
        "loop_ids init' = [b_loopId ?s1 ..< b_loopId ?s1 + length (loop_ids init)]"
      by blast
    then show ?thesis
      unfolding i IGlobal
      by (simp add: bind_def ret_def item_loop_ids.simps[of "Item _ _ _ _ _"] item_exprs_def)
  next
    case (IUse segs res)
    then show ?thesis
      unfolding i
      by (simp add: bind_def ret_def item_loop_ids.simps[of "Item _ _ _ _ _"] item_exprs_def)
  next
    case (IError err)
    then show ?thesis
      unfolding i
      by (simp add: bind_def ret_def item_loop_ids.simps[of "Item _ _ _ _ _"] item_exprs_def)
  qed
  then obtain i1 s' where
      run1: "superFoldItem ?fit assigner_expr ret i ?s1 = Inr (i1, s')"
    and n1: "b_itemId s' = Suc ?n + length (concat (map item_ids (subitems i)))"
    and l1: "b_loopId s' = b_loopId s + length (item_loop_ids i)"
    and ids1: "concat (map item_ids (subitems i1))
             = map (ItemId pid) [Suc ?n ..< Suc ?n + length (concat (map item_ids (subitems i)))]"
    and loops1: "item_loop_ids i1 = [b_loopId s ..< b_loopId s + length (item_loop_ids i)]"
    by blast
  have run: "assigner_itemInner pid i s = Inr (with_id (ItemId pid ?n) i1, s')"
    using run1 by (simp add: bind_def ret_def nextItemId_def ids_next_def)
  have len: "length (item_ids i) = Suc (length (concat (map item_ids (subitems i))))"
    by (simp add: item_ids.simps[of i])
  have upt: "\<And>m. [?n ..< ?n + Suc m] = ?n # [Suc ?n ..< Suc ?n + m]"
    by (simp add: upt_conv_Cons)
  have "item_numbered pid s i (with_id (ItemId pid ?n) i1) s'"
    unfolding item_numbered_def item_ids_with_id item_loop_ids_with_id len upt
    using n1 l1 ids1 loops1 by simp
  with run show ?case by blast
qed

lemma runs_okD: "runs_ok R m \<Longrightarrow> \<exists>a s'. m s = Inr (a, s') \<and> R s s'"
  by (simp add: runs_ok_def)

lemma runs_ok_ret: "reflp R \<Longrightarrow> runs_ok R (ret a)"
  by (auto simp: runs_ok_def ret_def reflp_def)

lemma runs_ok_bind:
  assumes tr: "transp R" and m: "runs_ok R m" and f: "\<And>a. runs_ok R (f a)"
  shows "runs_ok R (bind m f)"
  unfolding runs_ok_def
proof
  fix s
  from runs_okD[OF m, of s] obtain a s1 where m1: "m s = Inr (a, s1)" and r1: "R s s1" by blast
  from runs_okD[OF f, of a s1] obtain b s2 where f1: "f a s1 = Inr (b, s2)" and r2: "R s1 s2"
    by blast
  from r1 r2 tr have "R s s2" by (blast dest: transpD)
  with m1 f1 show "\<exists>b s'. bind m f s = Inr (b, s') \<and> R s s'"
    by (auto simp: bind_def)
qed

lemma runs_ok_mapM:
  "reflp R \<Longrightarrow> transp R \<Longrightarrow> (\<And>x. x \<in> set xs \<Longrightarrow> runs_ok R (f x)) \<Longrightarrow> runs_ok R (mapM f xs)"
  by (induction xs) (auto intro!: runs_ok_ret runs_ok_bind)

lemma runs_ok_mapOpt:
  "reflp R \<Longrightarrow> transp R \<Longrightarrow> (\<And>a. x = Some a \<Longrightarrow> runs_ok R (f a)) \<Longrightarrow> runs_ok R (mapOpt f x)"
  by (cases x) (auto simp: mapOpt_def intro!: runs_ok_ret runs_ok_bind)

lemma runs_ok_superFoldExpr:
  assumes R: "reflp R" "transp R"
    and fe: "\<And>x. x \<in> set (subexprs e) \<Longrightarrow> runs_ok R (fe x)"
    and fi: "\<And>i. runs_ok R (fi i)" and ft: "\<And>a. runs_ok R (ft a)"
  shows "runs_ok R (superFoldExpr fe fi ft e)"
proof -
  obtain k sp t where e: "e = Expr k sp t" by (cases e)
  note intros = runs_ok_ret[OF R(1)] runs_ok_bind[OF R(2)] runs_ok_mapM[OF R]
    runs_ok_mapOpt[OF R] fi ft
  show ?thesis
    using fe unfolding e
    by (cases k) (auto intro!: intros)
qed

lemma vkeeps_refl: "reflp vkeeps"
  by (simp add: reflp_def vkeeps_def)

lemma vkeeps_trans: "transp vkeeps"
  by (auto simp: transp_def vkeeps_def)

lemmas vk_ret = runs_ok_ret[OF vkeeps_refl]

lemmas vk_bind = runs_ok_bind[OF vkeeps_trans]

lemmas vk_mapM = runs_ok_mapM[OF vkeeps_refl vkeeps_trans]

lemmas vk_superFoldExpr = runs_ok_superFoldExpr[OF vkeeps_refl vkeeps_trans]

lemma vk_emitError: "runs_ok vkeeps (v_emitError d)"
  by (simp add: runs_ok_def v_emitError_def vkeeps_def)

lemma vk_checkPrecedence: "runs_ok vkeeps (checkPrecedence k sp e side)"
  by (simp add: checkPrecedence_def vk_ret vk_bind vk_emitError split: expr_kind.splits)

lemma vk_validator_expr: "runs_ok vkeeps (validator_expr e)"
proof (induction e rule: measure_induct_rule[where f = size])
  case (less e)
  have sub: "\<And>x. x \<in> set (subexprs e) \<Longrightarrow> runs_ok vkeeps (validator_expr x)"
    using less.IH size_subexprs by blast
  have super: "runs_ok vkeeps (superFoldExpr validator_expr ret ret e)"
    by (rule vk_superFoldExpr) (simp_all add: sub vk_ret)
  obtain k sp t where e: "e = Expr k sp t" by (cases e)
  show ?case
  proof (cases k)
    case (KBlock exprs locals)
    have "runs_ok vkeeps (mapM (\<lambda>inner. case let_rhs inner of
                   Some rhs \<Rightarrow> validator_expr rhs
                 | None \<Rightarrow> validator_expr inner) exprs)"
    proof (rule vk_mapM)
      fix x assume x: "x \<in> set exprs"
      then have lt: "size x < size e"
        unfolding e KBlock using size_list_member[of x exprs] by simp
      show "runs_ok vkeeps (case let_rhs x of Some rhs \<Rightarrow> validator_expr rhs
                            | None \<Rightarrow> validator_expr x)"
      proof (cases "let_rhs x")
        case None
        with less.IH[OF lt] show ?thesis by simp
      next
        case (Some rhs)
        from size_let_rhs[OF Some] lt have "size rhs < size e" by simp
        from less.IH[OF this] Some show ?thesis by simp
      qed
    qed
    then show ?thesis
      unfolding e KBlock by (simp add: vk_bind vk_ret)
  next
    case (KLet name aty rhs loc)
    with super show ?thesis
      unfolding e by (simp add: vk_bind vk_emitError)
  next
    case (KBinary bk lhs rhs)
    with super show ?thesis
      unfolding e by (simp add: vk_bind vk_checkPrecedence)
  qed (use super e in simp_all)
qed

lemma accepts_ok:
  "accepts ids m \<Longrightarrow> distinct ids \<and> set ids \<inter> seenItemIds s = {}
    \<Longrightarrow> \<exists>a s'. m s = Inr (a, s') \<and> seenItemIds s' = seenItemIds s \<union> set ids"
  unfolding accepts_def by (erule allE[of _ s]) (simp only: if_True)

lemma accepts_fail:
  "accepts ids m \<Longrightarrow> \<not> (distinct ids \<and> set ids \<inter> seenItemIds s = {}) \<Longrightarrow> \<exists>e. m s = Inl e"
  unfolding accepts_def by (erule allE[of _ s]) (simp only: if_False)

lemma acceptsI:
  assumes "\<And>s. distinct ids \<and> set ids \<inter> seenItemIds s = {}
             \<Longrightarrow> \<exists>a s'. m s = Inr (a, s') \<and> seenItemIds s' = seenItemIds s \<union> set ids"
    and "\<And>s. \<not> (distinct ids \<and> set ids \<inter> seenItemIds s = {}) \<Longrightarrow> \<exists>e. m s = Inl e"
  shows "accepts ids m"
  unfolding accepts_def using assms by (simp only: split: if_split) blast

lemma accepts_mapM:
  assumes "\<And>x. x \<in> set xs \<Longrightarrow> accepts (item_ids x) (f x)"
  shows "accepts (concat (map item_ids xs)) (mapM f xs)"
  using assms
proof (induction xs)
  case Nil
  then show ?case by (simp add: accepts_def ret_def)
next
  case (Cons x xs)
  have x: "accepts (item_ids x) (f x)" and xs: "accepts (concat (map item_ids xs)) (mapM f xs)"
    using Cons by simp_all
  show ?case
  proof (rule acceptsI)
    fix s :: vstate
    assume ok: "distinct (concat (map item_ids (x # xs)))
                 \<and> set (concat (map item_ids (x # xs))) \<inter> seenItemIds s = {}"
    then have okx: "distinct (item_ids x) \<and> set (item_ids x) \<inter> seenItemIds s = {}" by auto
    from accepts_ok[OF x okx] obtain a s1 where
        a: "f x s = Inr (a, s1)" and s1: "seenItemIds s1 = seenItemIds s \<union> set (item_ids x)"
      by blast
    from ok s1 have "distinct (concat (map item_ids xs))
                     \<and> set (concat (map item_ids xs)) \<inter> seenItemIds s1 = {}" by auto
    from accepts_ok[OF xs this] obtain as s2 where
        "mapM f xs s1 = Inr (as, s2)"
        "seenItemIds s2 = seenItemIds s1 \<union> set (concat (map item_ids xs))"
      by blast
    with a s1 show "\<exists>a s'. mapM f (x # xs) s = Inr (a, s')
        \<and> seenItemIds s' = seenItemIds s \<union> set (concat (map item_ids (x # xs)))"
      by (auto simp: bind_def ret_def)
  next
    fix s :: vstate
    assume bad: "\<not> (distinct (concat (map item_ids (x # xs)))
                 \<and> set (concat (map item_ids (x # xs))) \<inter> seenItemIds s = {})"
    show "\<exists>e. mapM f (x # xs) s = Inl e"
    proof (cases "distinct (item_ids x) \<and> set (item_ids x) \<inter> seenItemIds s = {}")
      case False
      from accepts_fail[OF x False] show ?thesis by (auto simp: bind_def)
    next
      case True
      from accepts_ok[OF x True] obtain a s1 where
          a: "f x s = Inr (a, s1)" and s1: "seenItemIds s1 = seenItemIds s \<union> set (item_ids x)"
        by blast
      from bad True s1 have "\<not> (distinct (concat (map item_ids xs))
                     \<and> set (concat (map item_ids xs)) \<inter> seenItemIds s1 = {})" by auto
      from accepts_fail[OF xs this] a show ?thesis by (auto simp: bind_def)
    qed
  qed
qed

lemma accepts_folder_item:
  assumes "accepts ids (itemInner x)"
  shows "accepts ids (folder_item v_put itemInner x)"
proof (rule acceptsI)
  fix s :: vstate
  assume "distinct ids \<and> set ids \<inter> seenItemIds s = {}"
  from accepts_ok[OF assms this]
  show "\<exists>a s'. folder_item v_put itemInner x s = Inr (a, s')
               \<and> seenItemIds s' = seenItemIds s \<union> set ids"
    by (auto simp: folder_item_def bind_def v_put_def)
next
  fix s :: vstate
  assume "\<not> (distinct ids \<and> set ids \<inter> seenItemIds s = {})"
  from accepts_fail[OF assms this]
  show "\<exists>e. folder_item v_put itemInner x s = Inl e"
    by (auto simp: folder_item_def bind_def)
qed

lemma accepts_runs_ok: "runs_ok vkeeps m \<Longrightarrow> accepts [] m"
  by (rule acceptsI) (auto dest: runs_okD[of _ _ ] simp: vkeeps_def runs_ok_def)

lemma accepts_bind_ret:
  assumes "accepts ids m"
  shows "accepts ids (bind m (\<lambda>x. ret (g x)))"
proof (rule acceptsI)
  fix s :: vstate
  assume "distinct ids \<and> set ids \<inter> seenItemIds s = {}"
  from accepts_ok[OF assms this]
  show "\<exists>a s'. bind m (\<lambda>x. ret (g x)) s = Inr (a, s') \<and> seenItemIds s' = seenItemIds s \<union> set ids"
    by (auto simp: bind_def ret_def)
next
  fix s :: vstate
  assume "\<not> (distinct ids \<and> set ids \<inter> seenItemIds s = {})"
  from accepts_fail[OF assms this]
  show "\<exists>e. bind m (\<lambda>x. ret (g x)) s = Inl e"
    by (auto simp: bind_def)
qed

lemma validator_item_accepts: "accepts (item_ids i) (validator_itemInner i)"
proof (induction i rule: measure_induct_rule[where f = size])
  case (less i)
  let ?fit = "folder_item v_put validator_itemInner"
  let ?rest = "concat (map item_ids (subitems i))"
  have subs: "accepts ?rest (mapM ?fit (subitems i))"
  proof (rule accepts_mapM, rule accepts_folder_item)
    fix x assume "x \<in> set (subitems i)"
    then have "size x < size i" by (rule size_subitems)
    then show "accepts (item_ids x) (validator_itemInner x)" by (rule less.IH)
  qed
  obtain k sp iid name dp where i: "i = Item k sp iid name dp" by (cases i)
  note vk = vk_ret vk_bind vk_validator_expr
  have fold: "accepts ?rest (superFoldItem ?fit validator_expr ret i)"
  proof (cases k)
    case (IMod contents)
    with subs show ?thesis
      unfolding i by (simp add: accepts_bind_ret)
  next
    case (IType gp d tty)
    then show ?thesis
      unfolding i by (cases d) (simp_all add: accepts_runs_ok vk)
  qed (simp_all add: i accepts_runs_ok vk)
  have ids: "item_ids i = i_id i # ?rest" by (rule item_ids.simps)
  show ?case
    unfolding ids
  proof (rule acceptsI)
    fix s :: vstate
    assume ok: "distinct (i_id i # ?rest) \<and> set (i_id i # ?rest) \<inter> seenItemIds s = {}"
    let ?s1 = "s\<lparr> seenItemIds := insert (i_id i) (seenItemIds s) \<rparr>"
    from ok have "distinct ?rest \<and> set ?rest \<inter> seenItemIds ?s1 = {}" by auto
    from accepts_ok[OF fold this] obtain a s' where
        "superFoldItem ?fit validator_expr ret i ?s1 = Inr (a, s')"
        "seenItemIds s' = seenItemIds ?s1 \<union> set ?rest"
      by blast
    with ok show "\<exists>a s'. validator_itemInner i s = Inr (a, s')
        \<and> seenItemIds s' = seenItemIds s \<union> set (i_id i # ?rest)"
      by auto
  next
    fix s :: vstate
    assume bad: "\<not> (distinct (i_id i # ?rest) \<and> set (i_id i # ?rest) \<inter> seenItemIds s = {})"
    let ?s1 = "s\<lparr> seenItemIds := insert (i_id i) (seenItemIds s) \<rparr>"
    show "\<exists>e. validator_itemInner i s = Inl e"
    proof (cases "i_id i \<in> seenItemIds s")
      case True
      then show ?thesis by simp
    next
      case False
      with bad have "\<not> (distinct ?rest \<and> set ?rest \<inter> seenItemIds ?s1 = {})" by auto
      from accepts_fail[OF fold this] False show ?thesis by auto
    qed
  qed
qed

lemma validateAst_accepts:
  "(\<exists>sink'. validateAst p sink = Inr sink') \<longleftrightarrow> distinct (pkg_item_ids p)"
proof -
  let ?fit = "folder_item v_put validator_itemInner"
  let ?s0 = "\<lparr> seenItemIds = {}, v_errors = sink, v_newItemsById = Map.empty \<rparr>"
  have acc: "accepts (pkg_item_ids p) (mapM ?fit (rootItems p))"
    unfolding pkg_item_ids_def
    by (rule accepts_mapM, rule accepts_folder_item, rule validator_item_accepts)
  show ?thesis
  proof (cases "distinct (pkg_item_ids p)")
    case True
    then have "distinct (pkg_item_ids p) \<and> set (pkg_item_ids p) \<inter> seenItemIds ?s0 = {}"
      by simp
    from accepts_ok[OF acc this] True show ?thesis
      by (auto simp: validateAst_def foldAst_def bind_def)
  next
    case False
    then have "\<not> (distinct (pkg_item_ids p) \<and> set (pkg_item_ids p) \<inter> seenItemIds ?s0 = {})"
      by simp
    from accepts_fail[OF acc this] False show ?thesis
      by (auto simp: validateAst_def foldAst_def bind_def)
  qed
qed

text \<open>
  Claim C8.  \<open>buildPkg\<close> returns a package whose item ids, read in traversal order (an item
  before its contents), are \<open>(pid, 1), (pid, 2), \<dots>\<close> and whose loop ids, read in the order
  the loops are completed, are \<open>0, 1, \<dots>\<close>: both are pairwise distinct, and index 0 is left
  to the package root.  The validator accepts a package exactly when its item ids are
  pairwise distinct, so it accepts every package the builder returns.
\<close>

theorem builder_ids:
  "\<exists>built. buildPkg name items pid fatal = Inr built
     \<and> pkg_item_ids built
         = map (ItemId pid) [1 ..< 1 + length (concat (map item_ids items))]
     \<and> pkg_loop_ids built = [0 ..< length (concat (map item_loop_ids items))]
     \<and> distinct (pkg_item_ids built) \<and> distinct (pkg_loop_ids built)
     \<and> (\<exists>sink'. validateAst built sink = Inr sink')
     \<and> ((\<exists>sink'. validateAst p sink = Inr sink') \<longleftrightarrow> distinct (pkg_item_ids p))"
proof -
  let ?fit = "folder_item b_put (assigner_itemInner pid)"
  let ?s0 = "\<lparr> b_itemId = snd (ids_next 0), b_loopId = 0, b_newItemsById = Map.empty \<rparr>"
  have "\<exists>xs' s'. mapM ?fit items ?s0 = Inr (xs', s') \<and> items_numbered pid ?s0 items xs' s'"
    by (rule assigner_items, rule folder_item_numbered, rule assigner_item_ids)
  then obtain xs' s' where
      run: "mapM ?fit items ?s0 = Inr (xs', s')" and num: "items_numbered pid ?s0 items xs' s'"
    by blast
  let ?built = "\<lparr> pkg_id = pid, rootItems = xs', itemsById = b_newItemsById s',
                   packageName = name, fatalError = fatal \<rparr>"
  have built: "buildPkg name items pid fatal = Inr ?built"
    using run by (simp add: buildPkg_def foldAst_def bind_def Let_def)
  have ids: "pkg_item_ids ?built
      = map (ItemId pid) [1 ..< 1 + length (concat (map item_ids items))]"
    and loops: "pkg_loop_ids ?built = [0 ..< length (concat (map item_loop_ids items))]"
    using num by (simp_all add: items_numbered_def pkg_item_ids_def pkg_loop_ids_def ids_next_def)
  have d1: "distinct (pkg_item_ids ?built)"
    unfolding ids by (simp add: distinct_map inj_on_def)
  have d2: "distinct (pkg_loop_ids ?built)"
    unfolding loops by simp
  from d1 have "\<exists>sink'. validateAst ?built sink = Inr sink'"
    by (simp only: validateAst_accepts)
  with built ids loops d1 d2 validateAst_accepts[of p sink] show ?thesis
    by (intro exI[of _ ?built]) simp
qed


section \<open>Module paths\<close>





lemma superFoldExpr_ident_result:
  assumes "superFoldExpr fe fi ft e s = Inr (e', s')" and "kind e' = KIdent v'"
  shows "\<exists>v. kind e = KIdent v \<and> fi v s = Inr (v', s')"
proof -
  obtain k sp t where e: "e = Expr k sp t" by (cases e)
  show ?thesis
    using assms unfolding e
    by (cases k) (auto simp: bind_Inr ret_def)
qed

lemma superFoldExpr_path_result:
  assumes "superFoldExpr fe fi ft e s = Inr (e', s')" and "kind e' = KPath segs res vsp"
  shows "kind e = KPath segs res vsp \<and> s' = s"
proof -
  obtain k sp t where e: "e = Expr k sp t" by (cases e)
  show ?thesis
    using assms unfolding e
    by (cases k) (auto simp: bind_Inr ret_def)
qed

lemma resolveIdent_name:
  "id_name v' = id_name v \<Longrightarrow> id_span v' = id_span v
    \<Longrightarrow> resolveIdent cx items scs v' = resolveIdent cx items scs v"
  by (cases v; cases v') (simp add: resolveIdent_def split: option.splits)

lemma resolver_ident_run:
  "resolver_ident cx items v s = Inr (v', s')
    \<Longrightarrow> s' = s \<and> (\<exists>r. resolveIdent cx items (scopes s) v = Inr r
                     \<and> v' = Ident (id_name v) (id_span v) (Some r))"
  by (auto simp: resolver_ident_def resolveIdentM_def bind_Inr ret_def split: sum.splits)




lemma modulePath_not_nameish:
  "\<not> nameish lhs \<Longrightarrow> modulePath cx items lhs fld s = Inr (None, s)"
  by (cases "kind lhs") (simp_all add: modulePath_def lhsResolution_def nameish_def bind_def ret_def)

lemma modulePath_Some_path:
  assumes run: "modulePath cx items lhs fld s = Inr (Some p, s')"
  shows "\<exists>segs res vsp. kind p = KPath segs res vsp"
proof -
  from run obtain rs where rs: "lhsResolution cx items lhs s = Inr (rs, s)"
    by (auto simp: modulePath_def lhsResolution_def bind_Inr ret_def resolveIdentM_def
          split: expr_kind.splits sum.splits)
  show ?thesis
  proof (cases rs)
    case None
    with run rs show ?thesis by (simp add: modulePath_def bind_def ret_def)
  next
    case (Some a)
    obtain res segs where a: "a = (res, segs)" by (cases a)
    show ?thesis
    proof (cases res)
      case (ResItem rid)
      let ?m = "findItem (cx_gcx cx) rid (cx_ast cx)"
      show ?thesis
      proof (cases "is_module ?m")
        case False
        with run rs Some a ResItem show ?thesis
          by (simp add: modulePath_def bind_def ret_def)
      next
        case True
        show ?thesis
        proof (cases "f_value fld")
          case (FieldNum n)
          with run rs Some a ResItem True show ?thesis
            by (simp add: modulePath_def bind_def throw_def)
        next
          case (FieldName fname)
          with run rs Some a ResItem True show ?thesis
            by (auto simp: modulePath_def bind_def ret_def throw_def Let_def
                  split: option.splits sum.splits)
        qed
      qed
    qed (use run rs Some a in \<open>simp_all add: modulePath_def bind_def ret_def\<close>)
  qed
qed


lemma chain_fieldAccess: "chain (Expr (KFieldAccess lhs fld) sp t) = chain lhs"
  by (subst chain.simps) simp

lemma resolver_nameish:
  "resolver_expr cx items e s = Inr (e', s') \<Longrightarrow> nameish e'
    \<Longrightarrow> chain e \<and> stored_res cx items s' e'"
proof (induction e arbitrary: s e' s' rule: measure_induct_rule[where f = size])
  case (less e)
  obtain k sp t where e: "e = Expr k sp t" by (cases e)
  have default: "chain e \<and> stored_res cx items s' e'"
    if run: "superFoldExpr (resolver_expr cx items) (resolver_ident cx items)
               (resolver_type cx items) e s = Inr (e', s')"
  proof (cases "kind e'")
    case (KIdent v')
    from superFoldExpr_ident_result[OF run KIdent] obtain v where
        v: "kind e = KIdent v" and r: "resolver_ident cx items v s = Inr (v', s')"
      by blast
    from resolver_ident_run[OF r] obtain res where
        "s' = s" "resolveIdent cx items (scopes s) v = Inr res"
        "v' = Ident (id_name v) (id_span v) (Some res)"
      by blast
    with v KIdent show ?thesis
      using resolveIdent_name[of "Ident (id_name v) (id_span v) (Some res)" v cx items "scopes s"]
      by (simp add: chain.simps[of e] stored_res_def)
  next
    case (KPath segs res vsp)
    from superFoldExpr_path_result[OF run KPath] KPath show ?thesis
      by (simp add: chain.simps[of e] stored_res_def)
  qed (use less.prems(2) in \<open>simp_all add: nameish_def\<close>)
  show ?case
  proof (cases k)
    case (KBlock exprs locals)
    with less.prems show ?thesis
      unfolding e by (auto simp: bind_Inr ret_def nameish_def)
  next
    case (KLet name aty rhs loc)
    with less.prems show ?thesis
      unfolding e by (auto simp: bind_Inr ret_def nameish_def)
  next
    case (KFieldAccess lhs fld)
    from less.prems(1) obtain lhs1 sa p sb where
        l: "resolver_expr cx items lhs s = Inr (lhs1, sa)"
      and m: "modulePath cx items lhs1 fld sa = Inr (p, sb)"
      and rest: "(case p of Some q \<Rightarrow> ret q
                  | None \<Rightarrow> superFoldExpr (resolver_expr cx items) (resolver_ident cx items)
                      (resolver_type cx items) (Expr (KFieldAccess lhs fld) sp t)) sb
                 = Inr (e', s')"
      unfolding e KFieldAccess by (auto simp del: superFoldExpr.simps simp: bind_Inr)
    show ?thesis
    proof (cases p)
      case None
      with rest less.prems(2) show ?thesis
        by (auto simp: bind_Inr ret_def nameish_def)
    next
      case (Some q)
      with rest have e': "e' = q" by (simp add: ret_def)
      have n1: "nameish lhs1"
        using modulePath_not_nameish[of lhs1 cx items fld sa] m Some by auto
      have "size lhs < size e" unfolding e KFieldAccess by simp
      from less.IH[OF this l n1] have "chain lhs" by simp
      moreover from modulePath_Some_path[OF m[unfolded Some]]
      have "\<exists>segs res vsp. kind q = KPath segs res vsp" .
      ultimately show ?thesis
        unfolding e KFieldAccess e' by (auto simp: chain_fieldAccess stored_res_def)
    qed
  qed (use less.prems(1) default e in simp_all)
qed














lemma mod_lhs_module: "mod_lhs cx e \<longleftrightarrow> lhs_module cx e \<noteq> None"
  by (auto simp: mod_lhs_def lhs_module_def lhs_res_def res_is_module_def Let_def
        split: expr_kind.splits option.splits resolution.splits)

lemma lhsResolution_stored:
  assumes m: "lhs_module cx e = Some m" and st: "stored_res cx items s e"
  shows "\<exists>rid. lhsResolution cx items e s = Inr (Some (ResItem rid, lhs_segments e), s)
           \<and> findItem (cx_gcx cx) rid (cx_ast cx) = m \<and> is_module m"
  using m st
  by (auto simp: lhs_module_def lhs_res_def lhs_segments_def stored_res_def lhsResolution_def
        bind_def ret_def resolveIdentM_def Let_def
        split: expr_kind.splits option.splits resolution.splits if_splits)











































section \<open>Failures in the resolver and in the checker\<close>

text \<open>
  The resolver ends at a name-resolution failure with a thrown \<open>CompilerError\<close>: at an
  identifier that is no local, no item of the module, no loaded package and no builtin,
  at a module with two items of one name, and at a field access on a module that has
  no member of the field's name.
\<close>

lemma resolveIdent_unresolvable:
  assumes "unresolvable cx items scs (id_name v)"
  shows "resolveIdent cx items scs v
           = Inl (Thrown (CompilerError (CannotFind (id_name v)) (id_span v)))"
proof -
  from assms have a: "scanScopes scs (id_name v) (length scs) = None"
    by (auto simp: unresolvable_def scanScopes_None dest: nth_mem)
  from assms have b: "items (id_name v) = None" and d: "id_name v \<notin> set BUILTINS"
    by (simp_all add: unresolvable_def)
  from assms have c: "find (\<lambda>crate. id_name v = fst crate)
             ((packageName (cx_ast cx), pkg_id (cx_ast cx)) # finalizedCrates (cx_gcx cx)) = None"
    unfolding find_None_iff unresolvable_def by force
  show ?thesis
    unfolding resolveIdent_def Let_def a b c using d by simp
qed

lemma declareItems_duplicate:
  "\<not> distinct (map i_name contents) \<or> (\<exists>i\<in>set contents. i_name i \<in> dom items)
    \<Longrightarrow> \<exists>i\<in>set contents. declareItems contents items
            = Inl (Thrown (CompilerError (AlreadyDeclared (i_name i)) (i_span i)))"
proof (induction contents arbitrary: items)
  case Nil
  then show ?case by simp
next
  case (Cons x xs)
  show ?case
  proof (cases "items (i_name x)")
    case (Some a)
    then show ?thesis by auto
  next
    case None
    from Cons.prems None
    have "\<not> distinct (map i_name xs)
            \<or> (\<exists>i\<in>set xs. i_name i \<in> dom (items(i_name x \<mapsto> i_id x)))"
      by auto
    from Cons.IH[OF this] obtain i where
        i: "i \<in> set xs"
        and r: "declareItems xs (items(i_name x \<mapsto> i_id x))
                = Inl (Thrown (CompilerError (AlreadyDeclared (i_name i)) (i_span i)))"
      by blast
    from i have "i \<in> set (x # xs)" by simp
    moreover from r None have "declareItems (x # xs) items
                = Inl (Thrown (CompilerError (AlreadyDeclared (i_name i)) (i_span i)))"
      by simp
    ultimately show ?thesis by blast
  qed
qed

lemma resolveModule_duplicate:
  assumes "\<not> distinct (map i_name contents)"
  shows "\<exists>i\<in>set contents. resolveModule cx modName contents s
            = Inl (Thrown (CompilerError (AlreadyDeclared (i_name i)) (i_span i)))"
proof -
  from declareItems_duplicate[of contents Map.empty] assms obtain i where
      "i \<in> set contents"
      "declareItems contents Map.empty
         = Inl (Thrown (CompilerError (AlreadyDeclared (i_name i)) (i_span i)))"
    by blast
  then show ?thesis by (auto intro!: bexI[of _ i])
qed

lemma modulePath_missing:
  assumes m: "lhs_module cx e = Some m" and st: "stored_res cx items s e"
    and f: "f_value fld = FieldName fname"
    and look: "resolveModItem cx m fname s = Inr (None, s1)"
  shows "modulePath cx items e fld s
           = Inl (Thrown (CompilerError (ModuleHasNoItem (i_name m) fname) (f_span fld)))"
proof -
  from lhsResolution_stored[OF m st] obtain rid where
      rs: "lhsResolution cx items e s = Inr (Some (ResItem rid, lhs_segments e), s)"
      and fi: "findItem (cx_gcx cx) rid (cx_ast cx) = m" and im: "is_module m"
    by blast
  show ?thesis
    using rs fi im f look by (simp add: modulePath_def bind_def throw_def)
qed

lemma fieldAccess_missing:
  assumes l: "resolver_expr cx items lhs s = Inr (lhs', s1)"
    and m: "lhs_module cx lhs' = Some m"
    and f: "f_value fld = FieldName fname"
    and look: "resolveModItem cx m fname s1 = Inr (None, s2)"
  shows "resolver_expr cx items (Expr (KFieldAccess lhs fld) sp t) s
           = Inl (Thrown (CompilerError (ModuleHasNoItem (i_name m) fname) (f_span fld)))"
proof -
  from m have "nameish lhs'"
    by (auto simp: lhs_module_def lhs_res_def nameish_def split: expr_kind.splits)
  from resolver_nameish[OF l this] have st: "stored_res cx items s1 lhs'" by simp
  from modulePath_missing[OF m st f look] l show ?thesis
    by (simp add: bind_def)
qed

text \<open>On the package \<open>function main() = ( c; );\<close> no package is returned.\<close>

lemma resolve_unresolvable_aborts:
  "resolve gcx0 pkg2 = Inl (Thrown (CompilerError (CannotFind ''c'') (Span 20 21)))"
  by (simp add: resolve_def pkg2_def gcx0_def folder_item_def bind_def ret_def mapOpt_def
        enterBlock_def resolver_ident_def resolveIdentM_def resolveIdent_def BUILTINS_def Let_def)

text \<open>
  Claim C2.  The checker on the struct literal \<open>Pair { z: 1 }\<close>, where the struct \<open>Pair\<close> has
  the one field \<open>x\<close>: the diagnostic for the field \<open>z\<close> is submitted, and the check then
  ends with the \<open>TypeError\<close> of reading \<open>fields_no_subst[-1][1]\<close>.  No checked expression is
  returned and nothing is put in the place of the literal; in a block, the expressions
  after the literal are not checked.  The access \<open>p.z\<close> to the same missing field is the
  sibling that goes on: it returns the error type with the diagnostic in the sink.
\<close>

theorem struct_literal_unknown_field_aborts:
  "checkExpr env2 pairLiteral fs0 = Inl TypeError
   \<and> checkExpr env2 (Expr (KBlock [pairLiteral, Expr (KBreak None) (Span 16 21) None] (Some []))
                      (Span 0 1) None) fs0 = Inl TypeError
   \<and> fieldType env2 (TyStruct ''Pair'' [(''x'', TyInt)]) (Span 0 1)
        (Field (FieldName ''z'') (Span 2 3) None) (Span 1 2) fs0
       = Inr ((TyError ErrorEmitted, None),
              fs0\<lparr> errors := [CompilerError
                                 (FieldDoesNotExist ''z'' (TyStruct ''Pair'' [(''x'', TyInt)]))
                                 (Span 2 3)] \<rparr>)"
  by (simp add: pairLiteral_def env2_def fs0_def bind_def ret_def throw_def typeOfValue_def
        typeOfItemM_def assignField_def emitError_def literalTy_def localTysLength_def
        fieldType_def structField_def tyError_def tyErrorFrom_def)
end
